theory Spec2Isabelle
  imports Main "HOL-Library.AList"
begin

section \<open>The active-game page: module state\<close>

text \<open>
  A shallow embedding of \<^verbatim>\<open>src/frontend/app/activeGame.js\<close>. The module keeps its
  data in module-level variables; the model collects them in one record that every
  function takes and returns. JavaScript objects used as dictionaries are association
  lists (\<open>AList.update\<close> stores, \<open>map_of\<close> reads; a missing key reads as
  \<^verbatim>\<open>undefined\<close>, which is \<open>None\<close>). Player identifiers and board positions
  are integers: their decimal strings, which the source uses as object keys, are in
  one-to-one correspondence with them. The empty string that the source stores in
  \<^verbatim>\<open>currentPlayer\<close> and \<^verbatim>\<open>timer\<close> when nothing is animating is \<open>None\<close>.
\<close>

text \<open>One entry of \<^verbatim>\<open>playerPositions\<close>: \<^verbatim>\<open>{current: 0, end: 0}\<close>.
  The field \<^verbatim>\<open>end\<close> is called \<open>end_position\<close>, since \<^verbatim>\<open>end\<close> is reserved.\<close>

record player_position =
  current :: int
  end_position :: int

text \<open>The payload of a \<^verbatim>\<open>propertyOwnerChanges\<close> event is a list of changes
  \<^verbatim>\<open>{property: {position, name}, oldOwner: {id, name} | null, newOwner: {id, name} | null}\<close>.\<close>

record owner =
  owner_id :: int
  owner_name :: string

record property_info =
  prop_position :: int
  prop_name :: string

record change =
  property :: property_info
  oldOwner :: "owner option"
  newOwner :: "owner option"

text \<open>One tuple of a \<^verbatim>\<open>playerMove\<close> payload:
  player id, new position, old position, jailed flag.\<close>

type_synonym move_tuple = "int \<times> int \<times> int \<times> bool"

text \<open>The row handed to the owned-properties view for one change.\<close>

type_synonym view_row = "string \<times> string option \<times> string option"

datatype event_name =
  playerMove | playerTurn | playerBalance | playerJailed
  | propertyOwnerChanges | houseEvent | gameEnd

datatype handler =
  OnPlayerMove | OnPlayerTurn | OnPlayerBalance | OnPlayerJailed
  | OnPropertyOwnerChanges | OnHouseEvent | OnGameEnd

text \<open>A server-sent event with its parsed data. The data of the turn, balance, jail
  and game-end events is only handed on to other modules, so it stays a string.\<close>

datatype event =
  PlayerMoveEvent "move_tuple list"
  | PlayerTurnEvent string
  | PlayerBalanceEvent string
  | PlayerJailedEvent string
  | PropertyOwnerChangesEvent "change list"
  | HouseEventEvent "(int \<times> int \<times> int) list"
  | GameEndEvent string

fun name_of :: "event \<Rightarrow> event_name" where
  "name_of (PlayerMoveEvent _) = playerMove"
| "name_of (PlayerTurnEvent _) = playerTurn"
| "name_of (PlayerBalanceEvent _) = playerBalance"
| "name_of (PlayerJailedEvent _) = playerJailed"
| "name_of (PropertyOwnerChangesEvent _) = propertyOwnerChanges"
| "name_of (HouseEventEvent _) = houseEvent"
| "name_of (GameEndEvent _) = gameEnd"

text \<open>Calls into the modules that are imported by the source and not part of it:
  \<^verbatim>\<open>generateUserDetails\<close> and \<^verbatim>\<open>generateGameLog\<close>. Each call is recorded
  with its arguments, in order.\<close>

datatype user_details_call =
  GenerateUserDetails
  | TurnDetails string
  | BalanceDetails string
  | JailedPlayer string
  | EnableBuyPropertyButton "int option" int int

datatype log_call =
  GenerateGameLog
  | LogMoveEvent "move_tuple list"
  | LogTurnEvent string
  | LogBalanceEvent string
  | LogJailEvent string
  | LogPropertyEvent "change list"

datatype error = TypeError

record state =
  playerTokenInformation :: "(int \<times> string option) list"
  playerPositions :: "(int \<times> player_position) list"
  timer :: "nat option"
  currentPlayer :: "int option"
  propertyView :: "view_row list list option"
  currentHouses :: "(int \<times> int) list"
  currentHotels :: "(int \<times> int) list"
  propertyOwners :: "(int \<times> owner option) list"
  gameID :: "int option"
  listeners :: "(event_name \<times> handler) list"
  intervals :: "nat set"
  nextHandle :: nat
  user_id :: "int option"
  moved :: "(int \<times> int \<times> string option) list"
  userDetails :: "user_details_call list"
  gameLog :: "log_call list"
  buildings :: "((int \<times> int) list \<times> (int \<times> int) list) list"
  gameOverShown :: "string list"

text \<open>
  The first nine fields are the module's variables. \<open>propertyView\<close> is \<open>None\<close>
  while the variable is \<^verbatim>\<open>undefined\<close>, and otherwise holds the updates the view has
  received. The others are the environment: \<open>listeners\<close> is the listener list of the
  page's one event source (\<^verbatim>\<open>getEventSource()\<close>), \<open>intervals\<close> the handles of the
  armed interval timers and \<open>nextHandle\<close> the handle \<^verbatim>\<open>setInterval\<close> returns next,
  \<open>user_id\<close> the value of \<^verbatim>\<open>parseInt(cookie.checkUserDetails().user_id, 10)\<close>
  (\<open>None\<close> for NaN), \<open>moved\<close> the calls of \<^verbatim>\<open>control.movePlayer\<close>,
  \<open>buildings\<close> those of \<^verbatim>\<open>building.displayBuildings\<close> and \<open>gameOverShown\<close>
  those of \<^verbatim>\<open>gameOver\<close>.

  A handler that throws leaves the variables as they are at the throw:
  its result is \<open>Inl\<close> of the error and that state.
\<close>

type_synonym result = "(error \<times> state) + state"

fun after :: "result \<Rightarrow> state" where
  "after (Inl (e, s)) = s"
| "after (Inr s) = s"

definition initial :: "int option \<Rightarrow> state" where
  "initial uid =
     \<lparr>playerTokenInformation = [], playerPositions = [], timer = None,
      currentPlayer = None, propertyView = None, currentHouses = [],
      currentHotels = [], propertyOwners = [], gameID = None, listeners = [],
      intervals = {}, nextHandle = 1, user_id = uid, moved = [], userDetails = [],
      gameLog = [], buildings = [], gameOverShown = []\<rparr>"

section \<open>The token animator\<close>

text \<open>\<^verbatim>\<open>setInterval\<close> arms a new interval and returns its handle; handles are
  positive and never reused. \<^verbatim>\<open>clearInterval\<close> of a value that is no handle does
  nothing.\<close>

definition setInterval :: "state \<Rightarrow> nat \<times> state" where
  "setInterval s =
     (nextHandle s,
      s\<lparr>intervals := insert (nextHandle s) (intervals s),
        nextHandle := Suc (nextHandle s)\<rparr>)"

definition clearInterval :: "nat option \<Rightarrow> state \<Rightarrow> state" where
  "clearInterval t s =
     (case t of None \<Rightarrow> s | Some h \<Rightarrow> s\<lparr>intervals := intervals s - {h}\<rparr>)"

definition startAnimation :: "state \<Rightarrow> state" where
  "startAnimation s = (case setInterval s of (h, s') \<Rightarrow> s'\<lparr>timer := Some h\<rparr>)"

definition token_of :: "state \<Rightarrow> int \<Rightarrow> string option" where
  "token_of s p = (case map_of (playerTokenInformation s) p of None \<Rightarrow> None | Some t \<Rightarrow> t)"

text \<open>\<^verbatim>\<open>animate\<close>: reading \<^verbatim>\<open>playerPositions[currentPlayer].end\<close> throws a
  TypeError when \<^verbatim>\<open>currentPlayer\<close> is no key of \<^verbatim>\<open>playerPositions\<close>, before
  anything is written.\<close>

definition animate :: "state \<Rightarrow> result" where
  "animate s =
     (case currentPlayer s of
        None \<Rightarrow> Inl (TypeError, s)
      | Some p \<Rightarrow>
         (case map_of (playerPositions s) p of
            None \<Rightarrow> Inl (TypeError, s)
          | Some pp \<Rightarrow>
             if end_position pp \<noteq> 99 then
               let incremented = current pp + 1;
                   nextPosition = (if incremented > 39 then incremented - 40 else incremented);
                   s1 = s\<lparr>playerPositions :=
                          AList.update p (pp\<lparr>current := nextPosition\<rparr>) (playerPositions s)\<rparr>;
                   s2 = s1\<lparr>moved := moved s1 @ [(p, nextPosition, token_of s1 p)]\<rparr>
               in if nextPosition = end_position pp
                  then Inr ((clearInterval (timer s2) s2)\<lparr>currentPlayer := None\<rparr>)
                  else Inr s2
             else
               let s1 = s\<lparr>moved := moved s @ [(p, 99, token_of s p)]\<rparr>;
                   s2 = s1\<lparr>playerPositions :=
                          AList.update p (pp\<lparr>current := 99\<rparr>) (playerPositions s1)\<rparr>
               in Inr ((clearInterval (timer s2) s2)\<lparr>currentPlayer := None\<rparr>)))"

section \<open>The event handlers\<close>

text \<open>\<^verbatim>\<open>onPlayerMove\<close>. \<^verbatim>\<open>String(JSON.parse(data)).split(',')\<close> flattens the
  payload, so \<^verbatim>\<open>items[0]\<close>, \<^verbatim>\<open>items[1]\<close> and \<^verbatim>\<open>items[2]\<close> are the first
  three fields of the first tuple; of an empty payload \<^verbatim>\<open>items[0]\<close> is the empty
  string and the write to \<^verbatim>\<open>playerPositions[''].end\<close> throws.\<close>

definition onPlayerMove :: "move_tuple list \<Rightarrow> state \<Rightarrow> result" where
  "onPlayerMove ev s =
     (let s0 = s\<lparr>gameLog := gameLog s @ [LogMoveEvent ev]\<rparr> in
      case ev of
        [] \<Rightarrow> Inl (TypeError, s0\<lparr>currentPlayer := None\<rparr>)
      | (playerID, newPosition, oldPosition, jailed) # otherPlayers \<Rightarrow>
         (let s1 = s0\<lparr>currentPlayer := Some playerID\<rparr> in
          case map_of (playerPositions s1) playerID of
            None \<Rightarrow> Inl (TypeError, s1)
          | Some pp \<Rightarrow>
             let pp1 = (if oldPosition = - 1 then pp\<lparr>current := 9\<rparr> else pp);
                 endPosition = (if newPosition = - 1 then 99 else newPosition);
                 s2 = s1\<lparr>playerPositions :=
                        AList.update playerID (pp1\<lparr>end_position := endPosition\<rparr>)
                          (playerPositions s1)\<rparr>;
                 s3 = startAnimation s2
             in if Some playerID = user_id s3 then
                  (if newPosition \<in> fst ` set (propertyOwners s3)
                      \<and> map_of (propertyOwners s3) newPosition = Some None
                   then Inr (s3\<lparr>userDetails := userDetails s3 @
                               [EnableBuyPropertyButton (gameID s3) playerID newPosition]\<rparr>)
                   else Inr s3)
                else Inr s3))"

definition onPlayerTurn :: "string \<Rightarrow> state \<Rightarrow> result" where
  "onPlayerTurn d s =
     Inr (s\<lparr>userDetails := userDetails s @ [TurnDetails d],
            gameLog := gameLog s @ [LogTurnEvent d]\<rparr>)"

definition onPlayerBalance :: "string \<Rightarrow> state \<Rightarrow> result" where
  "onPlayerBalance d s =
     Inr (s\<lparr>userDetails := userDetails s @ [BalanceDetails d],
            gameLog := gameLog s @ [LogBalanceEvent d]\<rparr>)"

definition onPlayerJailed :: "string \<Rightarrow> state \<Rightarrow> result" where
  "onPlayerJailed d s =
     Inr (s\<lparr>userDetails := userDetails s @ [JailedPlayer d],
            gameLog := gameLog s @ [LogJailEvent d]\<rparr>)"

definition view_row_of :: "change \<Rightarrow> view_row" where
  "view_row_of c =
     (prop_name (property c),
      (case oldOwner c of None \<Rightarrow> None | Some ow \<Rightarrow> Some (owner_name ow)),
      (case newOwner c of None \<Rightarrow> None | Some ow \<Rightarrow> Some (owner_name ow)))"

text \<open>\<^verbatim>\<open>onPropertyOwnerChanges\<close>: \<^verbatim>\<open>eventData[0]\<close> of an empty list is
  \<^verbatim>\<open>undefined\<close> and reading its \<^verbatim>\<open>property\<close> throws; \<^verbatim>\<open>propertyView.update\<close>
  throws while \<^verbatim>\<open>propertyView\<close> is undefined, after the map has been written.\<close>

definition onPropertyOwnerChanges :: "change list \<Rightarrow> state \<Rightarrow> result" where
  "onPropertyOwnerChanges eventData s =
     (case eventData of
        [] \<Rightarrow> Inl (TypeError, s)
      | c # cs \<Rightarrow>
         (let s1 = s\<lparr>propertyOwners :=
                      AList.update (prop_position (property c)) (newOwner c)
                        (propertyOwners s)\<rparr>
          in case propertyView s1 of
               None \<Rightarrow> Inl (TypeError, s1)
             | Some v \<Rightarrow>
                Inr (s1\<lparr>propertyView := Some (v @ [map view_row_of eventData]),
                        gameLog := gameLog s1 @ [LogPropertyEvent eventData]\<rparr>)))"

fun onHouseEvent_loop :: "(int \<times> int \<times> int) list \<Rightarrow> state \<Rightarrow> state" where
  "onHouseEvent_loop [] s = s"
| "onHouseEvent_loop ((key, houses, hotels) # rest) s =
     onHouseEvent_loop rest
       (s\<lparr>currentHouses := AList.update key houses (currentHouses s),
          currentHotels := AList.update key hotels (currentHotels s)\<rparr>)"

definition onHouseEvent :: "(int \<times> int \<times> int) list \<Rightarrow> state \<Rightarrow> result" where
  "onHouseEvent houses s =
     (let s1 = onHouseEvent_loop houses s
      in Inr (s1\<lparr>buildings := buildings s1 @ [(currentHouses s1, currentHotels s1)]\<rparr>))"

section \<open>Registration of the handlers\<close>

text \<open>An event source keeps one entry for each pair of event name and callback:
  adding a pair that is there already does nothing.\<close>

definition addEventListener :: "event_name \<Rightarrow> handler \<Rightarrow> state \<Rightarrow> state" where
  "addEventListener n h s =
     (if (n, h) \<in> set (listeners s) then s else s\<lparr>listeners := listeners s @ [(n, h)]\<rparr>)"

definition removeEventListener :: "event_name \<Rightarrow> handler \<Rightarrow> state \<Rightarrow> state" where
  "removeEventListener n h s = s\<lparr>listeners := removeAll (n, h) (listeners s)\<rparr>"

definition enableActiveGameListeners :: "state \<Rightarrow> state" where
  "enableActiveGameListeners s =
     addEventListener gameEnd OnGameEnd
      (addEventListener houseEvent OnHouseEvent
       (addEventListener propertyOwnerChanges OnPropertyOwnerChanges
        (addEventListener playerJailed OnPlayerJailed
         (addEventListener playerBalance OnPlayerBalance
          (addEventListener playerTurn OnPlayerTurn
           (addEventListener playerMove OnPlayerMove s))))))"

definition disableActiveGameListeners :: "state \<Rightarrow> state" where
  "disableActiveGameListeners s =
     removeEventListener gameEnd OnGameEnd
      (removeEventListener houseEvent OnHouseEvent
       (removeEventListener propertyOwnerChanges OnPropertyOwnerChanges
        (removeEventListener playerBalance OnPlayerBalance
         (removeEventListener playerTurn OnPlayerTurn
          (removeEventListener playerMove OnPlayerMove s)))))"

definition onGameEnd :: "string \<Rightarrow> state \<Rightarrow> result" where
  "onGameEnd d s =
     (let s1 = disableActiveGameListeners s
      in Inr (s1\<lparr>gameOverShown := gameOverShown s1 @ [d]\<rparr>))"

section \<open>Starting a session\<close>

definition images :: "string list" where
  "images = [''hat.png'', ''car.png'', ''ship.png'', ''duck.png'']"

definition image_at :: "nat \<Rightarrow> string option" where
  "image_at i = (if i < length images then Some (images ! i) else None)"

fun displayBoard_loop :: "int list \<Rightarrow> nat \<Rightarrow> state \<Rightarrow> state" where
  "displayBoard_loop [] tokenSelector s = s"
| "displayBoard_loop (p # ps) tokenSelector s =
     displayBoard_loop ps (Suc tokenSelector)
       (s\<lparr>playerTokenInformation :=
            AList.update p (image_at tokenSelector) (playerTokenInformation s),
          playerPositions :=
            AList.update p \<lparr>current = 0, end_position = 0\<rparr> (playerPositions s),
          moved := moved s @ [(p, 0, image_at tokenSelector)]\<rparr>)"

text \<open>\<^verbatim>\<open>displayBoard\<close>; the canvases it creates in the document are not modelled.\<close>

definition displayBoard :: "int list \<Rightarrow> state \<Rightarrow> state" where
  "displayBoard playerList s = displayBoard_loop playerList 0 s"

fun propertyPositions_loop :: "int list \<Rightarrow> (int \<times> owner option) list \<Rightarrow> (int \<times> owner option) list" where
  "propertyPositions_loop [] po = po"
| "propertyPositions_loop (p # ps) po = propertyPositions_loop ps (AList.update p None po)"

text \<open>\<^verbatim>\<open>activeGame\<close> up to its call of \<^verbatim>\<open>generateUserDetails\<close>; the start event
  carries the game id and the property positions.\<close>

definition activeGame :: "int list \<Rightarrow> int \<times> int list \<Rightarrow> state \<Rightarrow> state" where
  "activeGame playerList startEvent s =
     (let s1 = s\<lparr>gameID := Some (fst startEvent)\<rparr>;
          s2 = s1\<lparr>propertyOwners := propertyPositions_loop (snd startEvent) (propertyOwners s1)\<rparr>;
          s3 = displayBoard playerList s2
      in s3\<lparr>userDetails := userDetails s3 @ [GenerateUserDetails]\<rparr>)"

text \<open>The callback that \<^verbatim>\<open>activeGame\<close> hands to \<^verbatim>\<open>generateUserDetails\<close>.\<close>

definition activeGame_callback :: "state \<Rightarrow> state" where
  "activeGame_callback s =
     enableActiveGameListeners
       (s\<lparr>propertyView := Some [], gameLog := gameLog s @ [GenerateGameLog]\<rparr>)"

text \<open>A session starts when \<^verbatim>\<open>activeGame\<close> has run and the callback has been called.\<close>

definition startSession :: "int list \<Rightarrow> int \<times> int list \<Rightarrow> state \<Rightarrow> state" where
  "startSession playerList startEvent s = activeGame_callback (activeGame playerList startEvent s)"

section \<open>The event loop\<close>

text \<open>A registered callback is called with the events of its name only; the other
  pairs cannot arise from \<^verbatim>\<open>enableActiveGameListeners\<close> and are given the result of
  a failed parse.\<close>

fun invoke :: "handler \<Rightarrow> event \<Rightarrow> state \<Rightarrow> result" where
  "invoke OnPlayerMove (PlayerMoveEvent d) s = onPlayerMove d s"
| "invoke OnPlayerTurn (PlayerTurnEvent d) s = onPlayerTurn d s"
| "invoke OnPlayerBalance (PlayerBalanceEvent d) s = onPlayerBalance d s"
| "invoke OnPlayerJailed (PlayerJailedEvent d) s = onPlayerJailed d s"
| "invoke OnPropertyOwnerChanges (PropertyOwnerChangesEvent d) s = onPropertyOwnerChanges d s"
| "invoke OnHouseEvent (HouseEventEvent d) s = onHouseEvent d s"
| "invoke OnGameEnd (GameEndEvent d) s = onGameEnd d s"
| "invoke _ _ s = Inl (TypeError, s)"

text \<open>Delivering an event calls the callbacks registered for its name, in the order of
  registration, skipping one that has been removed meanwhile. An exception in a
  callback is reported and the loop goes on with the variables as they are.\<close>

fun run_handlers :: "handler list \<Rightarrow> event \<Rightarrow> state \<Rightarrow> state" where
  "run_handlers [] ev s = s"
| "run_handlers (h # hs) ev s =
     run_handlers hs ev
       (if (name_of ev, h) \<in> set (listeners s) then after (invoke h ev s) else s)"

definition deliver :: "event \<Rightarrow> state \<Rightarrow> state" where
  "deliver ev s =
     run_handlers (map snd (filter (\<lambda>l. fst l = name_of ev) (listeners s))) ev s"

text \<open>A tick of the interval with handle \<open>h\<close> calls \<^verbatim>\<open>animate\<close> if the interval is
  still armed.\<close>

definition fire :: "nat \<Rightarrow> state \<Rightarrow> state" where
  "fire h s = (if h \<in> intervals s then after (animate s) else s)"

fun fires :: "nat \<Rightarrow> nat \<Rightarrow> state \<Rightarrow> state" where
  "fires 0 h s = s"
| "fires (Suc n) h s = fires n h (fire h s)"

datatype action =
  Deliver event
  | Fire nat
  | Start "int list" "int \<times> int list"

fun step :: "action \<Rightarrow> state \<Rightarrow> state" where
  "step (Deliver ev) s = deliver ev s"
| "step (Fire h) s = fire h s"
| "step (Start playerList startEvent) s = startSession playerList startEvent s"

fun run :: "action list \<Rightarrow> state \<Rightarrow> state" where
  "run [] s = s"
| "run (x # xs) s = run xs (step x s)"

section \<open>Notions used in the statements\<close>

text \<open>The number of ticks an animation from cell \<open>c\<close> to cell \<open>e\<close> takes:
  \<open>(e - c + 40) mod 40\<close> when the cells differ, and a whole lap when they are equal,
  since \<^verbatim>\<open>animate\<close> moves the token before it compares.\<close>

definition ticks_needed :: "int \<Rightarrow> int \<Rightarrow> nat" where
  "ticks_needed c e = (if e = c then 40 else nat ((e - c + 40) mod 40))"

text \<open>A \<^verbatim>\<open>playerMove\<close> payload without its jailed flags.\<close>

definition unflagged :: "move_tuple list \<Rightarrow> (int \<times> int \<times> int) list" where
  "unflagged ev = map (\<lambda>(playerID, newPosition, oldPosition, jailed). (playerID, newPosition, oldPosition)) ev"

text \<open>The actions after which no new animation has been started: everything but a
  \<^verbatim>\<open>playerMove\<close> event and the start of a session.\<close>

fun no_new_move :: "action \<Rightarrow> bool" where
  "no_new_move (Deliver (PlayerMoveEvent d)) = False"
| "no_new_move (Start playerList startEvent) = False"
| "no_new_move _ = True"

text \<open>The handle in \<^verbatim>\<open>timer\<close> is the one \<^verbatim>\<open>setInterval\<close> returned last, and
  every armed handle has been returned by \<^verbatim>\<open>setInterval\<close>.\<close>

definition timer_is_latest :: "state \<Rightarrow> bool" where
  "timer_is_latest s \<longleftrightarrow>
     (case timer s of None \<Rightarrow> nextHandle s = 1 | Some m \<Rightarrow> nextHandle s = Suc m)
     \<and> (\<forall>h \<in> intervals s. 0 < h \<and> h < nextHandle s)"

text \<open>An armed interval that is older than the one whose handle is in \<^verbatim>\<open>timer\<close>.\<close>

definition stale :: "nat \<Rightarrow> state \<Rightarrow> bool" where
  "stale h s \<longleftrightarrow>
     h \<in> intervals s \<and> Suc h < nextHandle s \<and> timer s = Some (nextHandle s - 1)"

text \<open>The actions that leave the keys \<open>ks\<close> of \<^verbatim>\<open>propertyOwners\<close> as they are:
  no session starts, and every change of every \<^verbatim>\<open>propertyOwnerChanges\<close> event names
  a position in \<open>ks\<close>.\<close>

fun names_tracked :: "int list \<Rightarrow> action \<Rightarrow> bool" where
  "names_tracked ks (Deliver (PropertyOwnerChangesEvent cs)) =
     list_all (\<lambda>c. prop_position (property c) \<in> set ks) cs"
| "names_tracked ks (Start playerList startEvent) = False"
| "names_tracked ks _ = True"

section \<open>An example session\<close>

text \<open>Players 1 and 2, game 7, property positions 1, 3 and 6; the local user is
  player 1.\<close>

definition scenario :: state where
  "scenario = startSession [1, 2] (7, [1, 3, 6]) (initial (Some 1))"

text \<open>Player 1 is sent from cell 0 to cell 5.\<close>

definition moving :: state where
  "moving = deliver (PlayerMoveEvent [(1, 5, 0, False)]) scenario"

text \<open>Player 2 is sent to jail.\<close>

definition jailing :: state where
  "jailing = deliver (PlayerMoveEvent [(2, - 1, 0, True)]) scenario"

text \<open>Player 1 has arrived on cell 5 and is sent to cell 5 again.\<close>

definition lapping :: state where
  "lapping = deliver (PlayerMoveEvent [(1, 5, 5, False)]) (fires 5 1 moving)"

text \<open>Player 2 leaves jail for cell 12.\<close>

definition leaving :: "move_tuple list" where
  "leaving = [(2, 12, - 1, False)]"

definition alice :: owner where
  "alice = \<lparr>owner_id = 1, owner_name = ''Alice''\<rparr>"

definition untracked_change :: "change list" where
  "untracked_change =
     [\<lparr>property = \<lparr>prop_position = 5, prop_name = ''Kings Cross Station''\<rparr>,
       oldOwner = None, newOwner = Some alice\<rparr>]"

definition tracked_change :: "change list" where
  "tracked_change =
     [\<lparr>property = \<lparr>prop_position = 3, prop_name = ''Whitechapel Road''\<rparr>,
       oldOwner = None, newOwner = Some alice\<rparr>]"

definition two_changes :: "change list" where
  "two_changes =
     [\<lparr>property = \<lparr>prop_position = 1, prop_name = ''Old Kent Road''\<rparr>,
       oldOwner = None, newOwner = Some alice\<rparr>,
      \<lparr>property = \<lparr>prop_position = 3, prop_name = ''Whitechapel Road''\<rparr>,
       oldOwner = None, newOwner = Some alice\<rparr>]"

definition ended :: state where
  "ended = deliver (GameEndEvent ''over'') scenario"

definition idle_actions :: "action list" where
  "idle_actions =
     [Fire 1, Deliver (PlayerTurnEvent ''turn''), Fire 1,
      Deliver (PropertyOwnerChangesEvent tracked_change), Deliver (PlayerBalanceEvent ''balance'')]"

text \<open>While player 1 is still moving, player 2 is sent to cell 8.\<close>

definition overlapping :: state where
  "overlapping = after (onPlayerMove [(2, 8, 0, False)] moving)"

definition later_ticks :: "action list" where
  "later_ticks = [Fire 1, Fire 2, Fire 1, Fire 2, Fire 1, Fire 2, Fire 1, Fire 2, Fire 1, Fire 2]"

section \<open>Basic facts\<close>

lemma startAnimation_eq:
  "startAnimation s = s\<lparr>intervals := insert (nextHandle s) (intervals s),
        nextHandle := Suc (nextHandle s), timer := Some (nextHandle s)\<rparr>"
  by (simp add: startAnimation_def setInterval_def)

lemma clearInterval_eq:
  "clearInterval t s = s\<lparr>intervals := intervals s - set_option t\<rparr>"
  by (cases t) (simp_all add: clearInterval_def)

lemma onPlayerMove_known:
  assumes "map_of (playerPositions s) playerID = Some pp"
  shows "onPlayerMove ((playerID, newPosition, oldPosition, jailed) # others) s =
    Inr (s\<lparr>gameLog := gameLog s @ [LogMoveEvent ((playerID, newPosition, oldPosition, jailed) # others)],
           currentPlayer := Some playerID,
           playerPositions := AList.update playerID
              \<lparr>current = (if oldPosition = - 1 then 9 else current pp),
               end_position = (if newPosition = - 1 then 99 else newPosition)\<rparr> (playerPositions s),
           intervals := insert (nextHandle s) (intervals s),
           nextHandle := Suc (nextHandle s),
           timer := Some (nextHandle s),
           userDetails := userDetails s @
             (if Some playerID = user_id s \<and> newPosition \<in> fst ` set (propertyOwners s)
                 \<and> map_of (propertyOwners s) newPosition = Some None
              then [EnableBuyPropertyButton (gameID s) playerID newPosition] else [])\<rparr>)"
  using assms by (cases pp) (simp add: onPlayerMove_def startAnimation_eq Let_def)

lemma animate_advance:
  assumes "currentPlayer s = Some p" and "map_of (playerPositions s) p = Some pp"
    and "end_position pp \<noteq> 99" and "0 \<le> current pp" and "current pp \<le> 39"
  shows "animate s =
    Inr (if (current pp + 1) mod 40 = end_position pp
         then s\<lparr>playerPositions := AList.update p (pp\<lparr>current := (current pp + 1) mod 40\<rparr>) (playerPositions s),
                moved := moved s @ [(p, (current pp + 1) mod 40, token_of s p)],
                intervals := intervals s - set_option (timer s),
                currentPlayer := None\<rparr>
         else s\<lparr>playerPositions := AList.update p (pp\<lparr>current := (current pp + 1) mod 40\<rparr>) (playerPositions s),
                moved := moved s @ [(p, (current pp + 1) mod 40, token_of s p)]\<rparr>)"
proof -
  have m: "(current pp + 1) mod 40 = (if 39 \<le> current pp then current pp - 39 else current pp + 1)"
    using assms(4,5) by (auto simp: mod_pos_pos_trivial)
  show ?thesis
    using assms(1,2,3) unfolding m
    by (simp add: animate_def Let_def clearInterval_eq token_of_def)
qed

lemma ticks_needed_alt:
  fixes c e :: int
  assumes "0 \<le> c" "c \<le> 39" "0 \<le> e" "e \<le> 39"
  shows "ticks_needed c e = (if c < e then nat (e - c) else nat (e - c + 40))"
proof -
  consider (less) "c < e" | (eq) "e = c" | (greater) "e < c"
    by linarith
  then show ?thesis
  proof cases
    case less
    have "(e - c + 40) mod 40 = (e - c) mod 40"
      by simp
    also have "\<dots> = e - c"
      using less assms by (intro mod_pos_pos_trivial) linarith+
    finally show ?thesis
      using less unfolding ticks_needed_def by simp
  next
    case eq
    then show ?thesis
      unfolding ticks_needed_def by simp
  next
    case greater
    have "(e - c + 40) mod 40 = e - c + 40"
      using greater assms by (intro mod_pos_pos_trivial) linarith+
    then show ?thesis
      using greater unfolding ticks_needed_def by (simp del: mod_add_self2)
  qed
qed

lemma wrap_alt:
  fixes c :: int
  assumes "0 \<le> c" "c \<le> 39"
  shows "(c + 1) mod 40 = (if c = 39 then 0 else c + 1)"
  using assms by (auto simp: mod_pos_pos_trivial)

lemma ticks_needed_last:
  assumes "0 \<le> c" "c \<le> 39" "0 \<le> e" "e \<le> 39"
  shows "(c + 1) mod 40 = e \<longleftrightarrow> ticks_needed c e = 1"
  using assms by (auto simp: ticks_needed_alt wrap_alt split: if_splits)

lemma ticks_needed_next:
  assumes "0 \<le> c" "c \<le> 39" "0 \<le> e" "e \<le> 39" "(c + 1) mod 40 \<noteq> e"
  shows "ticks_needed ((c + 1) mod 40) e = ticks_needed c e - 1"
proof -
  have "0 \<le> (c + 1) mod 40" "(c + 1) mod 40 \<le> 39"
    using assms(1,2) by (auto simp: wrap_alt)
  then have "ticks_needed ((c + 1) mod 40) e =
      (if (c + 1) mod 40 < e then nat (e - (c + 1) mod 40) else nat (e - (c + 1) mod 40 + 40))"
    using assms(3,4) by (rule ticks_needed_alt)
  then show ?thesis
    using assms by (auto simp: ticks_needed_alt wrap_alt split: if_splits)
qed

lemma ticks_needed_bounds:
  assumes "0 \<le> c" "c \<le> 39" "0 \<le> e" "e \<le> 39"
  shows "0 < ticks_needed c e" and "ticks_needed c e \<le> 40"
  using assms by (auto simp: ticks_needed_alt)

lemma token_of_frame:
  "token_of (s\<lparr>playerPositions := a\<rparr>) p = token_of s p"
  "token_of (s\<lparr>moved := b\<rparr>) p = token_of s p"
  by (simp_all add: token_of_def)

lemma fire_advance:
  assumes "currentPlayer s = Some p" and "map_of (playerPositions s) p = Some pp"
    and "0 \<le> current pp" and "current pp \<le> 39"
    and "0 \<le> end_position pp" and "end_position pp \<le> 39"
    and "h \<in> intervals s"
    and "1 < ticks_needed (current pp) (end_position pp)"
  shows "fire h s =
     s\<lparr>playerPositions := AList.update p (pp\<lparr>current := (current pp + 1) mod 40\<rparr>) (playerPositions s),
       moved := moved s @ [(p, (current pp + 1) mod 40, token_of s p)]\<rparr>"
proof -
  have "(current pp + 1) mod 40 \<noteq> end_position pp"
    using assms ticks_needed_last [of "current pp" "end_position pp"] by simp
  moreover have "end_position pp \<noteq> 99"
    using assms by simp
  ultimately show ?thesis
    using assms animate_advance [of s p pp] by (simp add: fire_def)
qed

lemma fire_finish:
  assumes "currentPlayer s = Some p" and "map_of (playerPositions s) p = Some pp"
    and "0 \<le> current pp" and "current pp \<le> 39"
    and "0 \<le> end_position pp" and "end_position pp \<le> 39"
    and "h \<in> intervals s"
    and "ticks_needed (current pp) (end_position pp) = 1"
  shows "fire h s =
     s\<lparr>playerPositions := AList.update p (pp\<lparr>current := end_position pp\<rparr>) (playerPositions s),
       moved := moved s @ [(p, end_position pp, token_of s p)],
       intervals := intervals s - set_option (timer s),
       currentPlayer := None\<rparr>"
proof -
  have "(current pp + 1) mod 40 = end_position pp"
    using assms ticks_needed_last [of "current pp" "end_position pp"] by simp
  moreover have "end_position pp \<noteq> 99"
    using assms by simp
  ultimately show ?thesis
    using assms animate_advance [of s p pp] by (simp add: fire_def)
qed

lemma upt_shift: "[1..<Suc (Suc k)] = 1 # map Suc [1..<Suc k]"
  by (simp add: map_Suc_upt upt_conv_Cons del: upt_Suc)

lemma fires_advance:
  assumes "currentPlayer s = Some p" and "map_of (playerPositions s) p = Some pp"
    and "0 \<le> current pp" and "current pp \<le> 39"
    and "0 \<le> end_position pp" and "end_position pp \<le> 39"
    and "h \<in> intervals s"
    and "k < ticks_needed (current pp) (end_position pp)"
  shows "fires k h s =
     s\<lparr>playerPositions :=
         AList.update p (pp\<lparr>current := (current pp + int k) mod 40\<rparr>) (playerPositions s),
       moved := moved s @ map (\<lambda>i. (p, (current pp + int i) mod 40, token_of s p)) [1..<Suc k]\<rparr>"
  using assms
proof (induction k arbitrary: s pp)
  case 0
  have "pp\<lparr>current := current pp mod 40\<rparr> = pp"
    using 0 by (simp add: mod_pos_pos_trivial)
  then show ?case
    using 0 by (simp add: update_triv)
next
  case (Suc k)
  let ?c1 = "(current pp + 1) mod 40"
  let ?pp1 = "pp\<lparr>current := ?c1\<rparr>"
  let ?s1 = "s\<lparr>playerPositions := AList.update p ?pp1 (playerPositions s),
       moved := moved s @ [(p, ?c1, token_of s p)]\<rparr>"
  have big: "1 < ticks_needed (current pp) (end_position pp)"
    using Suc.prems by simp
  have f: "fire h s = ?s1"
    using Suc.prems(1-7) big by (rule fire_advance)
  have ne: "?c1 \<noteq> end_position pp"
    using Suc.prems big ticks_needed_last [of "current pp" "end_position pp"] by simp
  have nxt: "ticks_needed ?c1 (end_position pp) = ticks_needed (current pp) (end_position pp) - 1"
    using Suc.prems(3-6) ne by (rule ticks_needed_next)
  have b: "0 \<le> ?c1" "?c1 \<le> 39"
    using Suc.prems(3,4) by (auto simp: wrap_alt)
  have ih: "fires k h ?s1 =
     ?s1\<lparr>playerPositions :=
         AList.update p (?pp1\<lparr>current := (current ?pp1 + int k) mod 40\<rparr>) (playerPositions ?s1),
       moved := moved ?s1 @ map (\<lambda>i. (p, (current ?pp1 + int i) mod 40, token_of ?s1 p)) [1..<Suc k]\<rparr>"
  proof (rule Suc.IH)
    show "currentPlayer ?s1 = Some p" using Suc.prems by simp
    show "map_of (playerPositions ?s1) p = Some ?pp1" by (simp add: update_conv')
    show "0 \<le> current ?pp1" using b by simp
    show "current ?pp1 \<le> 39" using b by simp
    show "0 \<le> end_position ?pp1" using Suc.prems by simp
    show "end_position ?pp1 \<le> 39" using Suc.prems by simp
    show "h \<in> intervals ?s1" using Suc.prems by simp
    show "k < ticks_needed (current ?pp1) (end_position ?pp1)"
      using Suc.prems nxt by simp
  qed
  have shift: "((current pp + 1) mod 40 + int i) mod 40 = (current pp + int (Suc i)) mod 40" for i
  proof -
    have "((current pp + 1) mod 40 + int i) mod 40 = (current pp + 1 + int i) mod 40"
      by (rule mod_add_left_eq)
    then show ?thesis by (simp add: add.assoc)
  qed
  have tok: "token_of ?s1 p = token_of s p"
    by (simp add: token_of_def)
  have "fires (Suc k) h s = fires k h ?s1"
    using f by simp
  also note ih
  finally show ?case
    unfolding upt_shift by (simp add: shift tok comp_def del: upt_Suc)
qed

lemma fires_add: "fires (m + n) h s = fires n h (fires m h s)"
  by (induction m arbitrary: s) simp_all

lemma fires_Suc_last: "fires (Suc k) h s = fire h (fires k h s)"
  using fires_add [of k 1 h s] by simp

lemma fires_disarmed: "h \<notin> intervals s \<Longrightarrow> fires k h s = s"
  by (induction k) (simp_all add: fire_def)

lemma wrap_Suc:
  fixes c :: int
  shows "((c + int k) mod 40 + 1) mod 40 = (c + int (Suc k)) mod 40"
proof -
  have e: "c + int (Suc k) = c + int k + 1"
    by simp
  show ?thesis
    unfolding e by (rule mod_add_left_eq)
qed

lemma ticks_needed_after:
  fixes c e :: int
  assumes "0 \<le> c" "c \<le> 39" "0 \<le> e" "e \<le> 39" "k < ticks_needed c e"
  shows "ticks_needed ((c + int k) mod 40) e = ticks_needed c e - k"
  using assms(5)
proof (induction k)
  case 0
  then show ?case using assms(1,2) by (simp add: mod_pos_pos_trivial)
next
  case (Suc k)
  let ?c = "(c + int k) mod 40"
  have b: "0 \<le> ?c" "?c \<le> 39"
    by simp_all
  have ih: "ticks_needed ?c e = ticks_needed c e - k"
    using Suc by simp
  then have "ticks_needed ?c e \<noteq> 1"
    using Suc.prems by simp
  then have "(?c + 1) mod 40 \<noteq> e"
    using ticks_needed_last [OF b assms(3,4)] by simp
  then have "ticks_needed ((?c + 1) mod 40) e = ticks_needed ?c e - 1"
    using ticks_needed_next [OF b assms(3,4)] by simp
  moreover have "(?c + 1) mod 40 = (c + int (Suc k)) mod 40"
    by (rule wrap_Suc)
  ultimately show ?case
    using ih by simp
qed

lemma fires_until_target:
  assumes "currentPlayer s = Some p" and "map_of (playerPositions s) p = Some pp"
    and "0 \<le> current pp" and "current pp \<le> 39"
    and "0 \<le> end_position pp" and "end_position pp \<le> 39"
    and "timer s = Some h" and "h \<in> intervals s"
  shows "(\<forall>k < ticks_needed (current pp) (end_position pp).
            fires k h s =
              s\<lparr>playerPositions :=
                  AList.update p (pp\<lparr>current := (current pp + int k) mod 40\<rparr>) (playerPositions s),
                moved := moved s @
                  map (\<lambda>i. (p, (current pp + int i) mod 40, token_of s p)) [1..<Suc k]\<rparr>)
       \<and> (\<forall>k \<ge> ticks_needed (current pp) (end_position pp).
            fires k h s =
              s\<lparr>playerPositions :=
                  AList.update p (pp\<lparr>current := end_position pp\<rparr>) (playerPositions s),
                moved := moved s @
                  map (\<lambda>i. (p, (current pp + int i) mod 40, token_of s p))
                    [1..<Suc (ticks_needed (current pp) (end_position pp))],
                intervals := intervals s - {h},
                currentPlayer := None\<rparr>)"
proof (intro conjI allI impI)
  fix k
  assume "k < ticks_needed (current pp) (end_position pp)"
  with assms(1-6,8) show "fires k h s =
      s\<lparr>playerPositions :=
          AList.update p (pp\<lparr>current := (current pp + int k) mod 40\<rparr>) (playerPositions s),
        moved := moved s @ map (\<lambda>i. (p, (current pp + int i) mod 40, token_of s p)) [1..<Suc k]\<rparr>"
    by (rule fires_advance)
next
  let ?n = "ticks_needed (current pp) (end_position pp)"
  let ?f = "\<lambda>i. (p, (current pp + int i) mod 40, token_of s p)"
  fix k
  assume le: "?n \<le> k"
  have pos: "0 < ?n"
    using assms(3-6) by (rule ticks_needed_bounds)
  then obtain m where n: "?n = Suc m"
    by (cases ?n) simp_all
  let ?ppm = "pp\<lparr>current := (current pp + int m) mod 40\<rparr>"
  let ?sm = "s\<lparr>playerPositions := AList.update p ?ppm (playerPositions s),
        moved := moved s @ map ?f [1..<Suc m]\<rparr>"
  have m: "fires m h s = ?sm"
    using assms(1-6,8) n by (intro fires_advance) simp_all
  have b: "0 \<le> (current pp + int m) mod 40" "(current pp + int m) mod 40 \<le> 39"
    by simp_all
  have one: "ticks_needed (current ?ppm) (end_position ?ppm) = 1"
    using ticks_needed_after [OF assms(3-6), of m] n by simp
  have reach: "(current pp + int (Suc m)) mod 40 = end_position pp"
  proof -
    have "((current pp + int m) mod 40 + 1) mod 40 = end_position pp"
      using ticks_needed_last [OF b assms(5,6)] one by simp
    then show ?thesis
      by (simp only: wrap_Suc)
  qed
  have fin: "fire h ?sm =
     ?sm\<lparr>playerPositions := AList.update p (?ppm\<lparr>current := end_position ?ppm\<rparr>) (playerPositions ?sm),
       moved := moved ?sm @ [(p, end_position ?ppm, token_of ?sm p)],
       intervals := intervals ?sm - set_option (timer ?sm),
       currentPlayer := None\<rparr>"
  proof (rule fire_finish)
    show "currentPlayer ?sm = Some p" using assms by simp
    show "map_of (playerPositions ?sm) p = Some ?ppm" by (simp add: update_conv')
    show "0 \<le> current ?ppm" "current ?ppm \<le> 39" using b by simp_all
    show "0 \<le> end_position ?ppm" "end_position ?ppm \<le> 39" using assms by simp_all
    show "h \<in> intervals ?sm" using assms by simp
    show "ticks_needed (current ?ppm) (end_position ?ppm) = 1" by (rule one)
  qed
  have tok: "token_of ?sm p = token_of s p"
    by (simp add: token_of_def)
  have stop: "fires ?n h s =
      s\<lparr>playerPositions := AList.update p (pp\<lparr>current := end_position pp\<rparr>) (playerPositions s),
        moved := moved s @ map ?f [1..<Suc ?n],
        intervals := intervals s - {h},
        currentPlayer := None\<rparr>" (is "_ = ?t")
    unfolding n fires_Suc_last [of m] m fin
    using assms(7) reach by (simp add: token_of_frame)
  have "h \<notin> intervals ?t" by simp
  then have "fires (k - ?n) h ?t = ?t" by (rule fires_disarmed)
  moreover have "fires k h s = fires (k - ?n) h (fires ?n h s)"
    using fires_add [of ?n "k - ?n" h s] le by simp
  ultimately show "fires k h s = ?t"
    using stop by simp
qed

section \<open>The animation\<close>

text \<open>
  Claim C1, as amended. Let the animating player's position be a cell \<open>c\<close> and the
  target a cell \<open>e\<close>, both in 0..39, and let the interval that the handle in
  \<^verbatim>\<open>timer\<close> names be armed. Then each tick moves the token one cell forward,
  from cell 39 to cell 0, and renders it there; the animation is still running after
  fewer than \<open>ticks_needed c e\<close> ticks and has stopped, on the target, after that
  many, where \<open>ticks_needed c e\<close> is \<open>(e - c + 40) mod 40\<close> when \<open>c\<close> and \<open>e\<close>
  differ and 40 when they are equal. Later ticks of the interval change nothing.
\<close>

theorem animate_reaches_target:
  assumes "currentPlayer s = Some p"
    and "map_of (playerPositions s) p = Some \<lparr>current = c, end_position = e\<rparr>"
    and "0 \<le> c" and "c \<le> 39" and "0 \<le> e" and "e \<le> 39"
    and "timer s = Some h" and "h \<in> intervals s"
  shows "(\<forall>k < ticks_needed c e.
            fires k h s =
              s\<lparr>playerPositions :=
                  AList.update p \<lparr>current = (c + int k) mod 40, end_position = e\<rparr>
                    (playerPositions s),
                moved := moved s @
                  map (\<lambda>i. (p, (c + int i) mod 40, token_of s p)) [1..<Suc k]\<rparr>)
       \<and> (\<forall>k \<ge> ticks_needed c e.
            fires k h s =
              s\<lparr>playerPositions :=
                  AList.update p \<lparr>current = e, end_position = e\<rparr> (playerPositions s),
                moved := moved s @
                  map (\<lambda>i. (p, (c + int i) mod 40, token_of s p)) [1..<Suc (ticks_needed c e)],
                intervals := intervals s - {h},
                currentPlayer := None\<rparr>)"
  using fires_until_target [of s p "\<lparr>current = c, end_position = e\<rparr>" h] assms
  by simp

theorem animate_reaches_target_witness:
  "currentPlayer moving = Some 1
   \<and> map_of (playerPositions moving) 1 = Some \<lparr>current = 0, end_position = 5\<rparr>
   \<and> timer moving = Some 1 \<and> 1 \<in> intervals moving
   \<and> ticks_needed 0 5 = 5
   \<and> fires 3 1 moving =
         moving\<lparr>playerPositions :=
             AList.update 1 \<lparr>current = 3, end_position = 5\<rparr> (playerPositions moving),
           moved := moved moving @
             [(1, 1, token_of moving 1), (1, 2, token_of moving 1), (1, 3, token_of moving 1)]\<rparr>
   \<and> fires 5 1 moving =
         moving\<lparr>playerPositions :=
             AList.update 1 \<lparr>current = 5, end_position = 5\<rparr> (playerPositions moving),
           moved := moved moving @
             [(1, 1, token_of moving 1), (1, 2, token_of moving 1), (1, 3, token_of moving 1),
              (1, 4, token_of moving 1), (1, 5, token_of moving 1)],
           intervals := intervals moving - {1},
           currentPlayer := None\<rparr>
   \<and> fires 9 1 moving = fires 5 1 moving"
proof -
  have h1: "currentPlayer moving = Some 1"
    by code_simp
  have h2: "map_of (playerPositions moving) 1 = Some \<lparr>current = 0, end_position = 5\<rparr>"
    by code_simp
  have h3: "(0::int) \<le> 0" "(0::int) \<le> 39" "(0::int) \<le> 5" "(5::int) \<le> 39"
    by simp_all
  have h4: "timer moving = Some 1"
    by code_simp
  have h5: "1 \<in> intervals moving"
    by code_simp
  have n: "ticks_needed 0 5 = 5"
    by (simp add: ticks_needed_def)
  note t = animate_reaches_target [OF h1 h2 h3 h4 h5]
  have a3: "fires 3 1 moving =
         moving\<lparr>playerPositions :=
             AList.update 1 \<lparr>current = 3, end_position = 5\<rparr> (playerPositions moving),
           moved := moved moving @
             [(1, 1, token_of moving 1), (1, 2, token_of moving 1), (1, 3, token_of moving 1)]\<rparr>"
    using t [THEN conjunct1, rule_format, of 3] n by (simp add: upt_rec)
  have a5: "fires 5 1 moving =
         moving\<lparr>playerPositions :=
             AList.update 1 \<lparr>current = 5, end_position = 5\<rparr> (playerPositions moving),
           moved := moved moving @
             [(1, 1, token_of moving 1), (1, 2, token_of moving 1), (1, 3, token_of moving 1),
              (1, 4, token_of moving 1), (1, 5, token_of moving 1)],
           intervals := intervals moving - {1},
           currentPlayer := None\<rparr>"
    using t [THEN conjunct2, rule_format, of 5] n by (simp add: upt_rec)
  have a9: "fires 9 1 moving = fires 5 1 moving"
    using t [THEN conjunct2, rule_format, of 5] t [THEN conjunct2, rule_format, of 9] n
    by simp
  from h1 h2 h4 h5 n a3 a5 a9 show ?thesis
    by blast
qed

text \<open>
  Claim C1 as stated fails when the position already equals the target: in
  \<open>lapping\<close> player 1 stands on cell 5 with target 5, and \<open>(5 - 5 + 40) mod 40\<close> is 0,
  but the interval is armed and its first tick moves the token to cell 6 and leaves
  the interval armed.
\<close>

theorem animate_equal_target_counterexample:
  "map_of (playerPositions lapping) 1 = Some \<lparr>current = 5, end_position = 5\<rparr>
   \<and> currentPlayer lapping = Some 1
   \<and> timer lapping = Some 2 \<and> 2 \<in> intervals lapping
   \<and> nat ((5 - 5 + 40) mod 40) = 0
   \<and> map_of (playerPositions (fires 1 2 lapping)) 1 = Some \<lparr>current = 6, end_position = 5\<rparr>
   \<and> currentPlayer (fires 1 2 lapping) = Some 1
   \<and> 2 \<in> intervals (fires 1 2 lapping)"
  by code_simp

text \<open>
  Claim C5. When the animating player's target is the jail sentinel 99, one call of
  \<^verbatim>\<open>animate\<close> renders the token once, at 99, sets the stored position to 99,
  cancels the interval whose handle is in \<^verbatim>\<open>timer\<close> and clears
  \<^verbatim>\<open>currentPlayer\<close>, whatever the position \<open>c\<close> was; nothing else changes.
\<close>

theorem animate_jail:
  assumes "currentPlayer s = Some p"
    and "map_of (playerPositions s) p = Some \<lparr>current = c, end_position = 99\<rparr>"
  shows "animate s =
    Inr (s\<lparr>moved := moved s @ [(p, 99, token_of s p)],
           playerPositions :=
             AList.update p \<lparr>current = 99, end_position = 99\<rparr> (playerPositions s),
           intervals := intervals s - set_option (timer s),
           currentPlayer := None\<rparr>)"
  using assms by (simp add: animate_def clearInterval_eq token_of_def)

theorem animate_jail_witness:
  "currentPlayer jailing = Some 2
   \<and> map_of (playerPositions jailing) 2 = Some \<lparr>current = 0, end_position = 99\<rparr>
   \<and> animate jailing =
       Inr (jailing\<lparr>moved := moved jailing @ [(2, 99, token_of jailing 2)],
              playerPositions :=
                AList.update 2 \<lparr>current = 99, end_position = 99\<rparr> (playerPositions jailing),
              intervals := intervals jailing - set_option (timer jailing),
              currentPlayer := None\<rparr>)"
proof -
  have h1: "currentPlayer jailing = Some 2"
    by code_simp
  have h2: "map_of (playerPositions jailing) 2 = Some \<lparr>current = 0, end_position = 99\<rparr>"
    by code_simp
  from animate_jail [OF h1 h2] h1 h2 show ?thesis
    by blast
qed

section \<open>The \<^verbatim>\<open>playerMove\<close> handler\<close>

lemma animate_gameLog:
  "after (animate (s\<lparr>gameLog := g\<rparr>)) = (after (animate s))\<lparr>gameLog := g\<rparr>"
  by (simp add: animate_def Let_def clearInterval_eq token_of_def split: option.splits)

lemma fire_gameLog: "fire h (s\<lparr>gameLog := g\<rparr>) = (fire h s)\<lparr>gameLog := g\<rparr>"
  by (simp add: fire_def animate_gameLog)

lemma fires_gameLog: "fires k h (s\<lparr>gameLog := g\<rparr>) = (fires k h s)\<lparr>gameLog := g\<rparr>"
  by (induction k arbitrary: s) (simp_all add: fire_gameLog)

lemma onPlayerMove_flag:
  assumes "unflagged ev1 = unflagged ev2"
  shows "isl (onPlayerMove ev1 s) = isl (onPlayerMove ev2 s)
     \<and> (after (onPlayerMove ev1 s))\<lparr>gameLog := g\<rparr> = (after (onPlayerMove ev2 s))\<lparr>gameLog := g\<rparr>
     \<and> gameLog (after (onPlayerMove ev1 s)) = gameLog s @ [LogMoveEvent ev1]
     \<and> gameLog (after (onPlayerMove ev2 s)) = gameLog s @ [LogMoveEvent ev2]"
proof (cases ev1)
  case Nil
  then have "ev2 = []"
    using assms by (simp add: unflagged_def)
  with Nil show ?thesis
    by (simp add: onPlayerMove_def)
next
  case (Cons t1 r1)
  obtain p n ol j1 where t1: "t1 = (p, n, ol, j1)"
    by (cases t1) auto
  obtain t2 r2 where ev2: "ev2 = t2 # r2"
    using assms Cons by (cases ev2) (simp_all add: unflagged_def)
  obtain j2 where t2: "t2 = (p, n, ol, j2)"
    using assms Cons ev2 t1 by (cases t2) (simp add: unflagged_def)
  show ?thesis
  proof (cases "map_of (playerPositions s) p")
    case None
    then show ?thesis
      unfolding Cons ev2 t1 t2 by (simp add: onPlayerMove_def)
  next
    case (Some pp)
    show ?thesis
      unfolding Cons ev2 t1 t2
      by (simp add: onPlayerMove_known [OF Some])
  qed
qed

text \<open>
  Claim C7. A \<^verbatim>\<open>playerMove\<close> event for a player of the board whose old position is
  \<open>-1\<close> makes the handler store 9 as that player's current position, without
  rendering anything, and arm the interval; when the new position is a cell (neither
  \<open>-1\<close> nor 99) the first tick of that interval moves the token from 9 to cell 10.
\<close>

theorem onPlayerMove_jail_departure:
  assumes "map_of (playerPositions s) playerID = Some \<lparr>current = c, end_position = e\<rparr>"
  shows "\<exists>s'. onPlayerMove ((playerID, newPosition, - 1, jailed) # others) s = Inr s'
     \<and> map_of (playerPositions s') playerID =
         Some \<lparr>current = 9, end_position = (if newPosition = - 1 then 99 else newPosition)\<rparr>
     \<and> moved s' = moved s
     \<and> currentPlayer s' = Some playerID
     \<and> timer s' = Some (nextHandle s)
     \<and> nextHandle s \<in> intervals s'
     \<and> (newPosition \<noteq> - 1 \<and> newPosition \<noteq> 99 \<longrightarrow>
          map_of (playerPositions (fire (nextHandle s) s')) playerID =
            Some \<lparr>current = 10, end_position = newPosition\<rparr>
          \<and> moved (fire (nextHandle s) s') = moved s @ [(playerID, 10, token_of s playerID)])"
proof -
  let ?e = "if newPosition = - 1 then 99 else newPosition"
  let ?s' = "s\<lparr>gameLog := gameLog s @ [LogMoveEvent ((playerID, newPosition, - 1, jailed) # others)],
           currentPlayer := Some playerID,
           playerPositions := AList.update playerID \<lparr>current = 9, end_position = ?e\<rparr> (playerPositions s),
           intervals := insert (nextHandle s) (intervals s),
           nextHandle := Suc (nextHandle s),
           timer := Some (nextHandle s),
           userDetails := userDetails s @
             (if Some playerID = user_id s \<and> newPosition \<in> fst ` set (propertyOwners s)
                 \<and> map_of (propertyOwners s) newPosition = Some None
              then [EnableBuyPropertyButton (gameID s) playerID newPosition] else [])\<rparr>"
  have r: "onPlayerMove ((playerID, newPosition, - 1, jailed) # others) s = Inr ?s'"
    using onPlayerMove_known [OF assms, of newPosition "- 1" jailed others] by simp
  have pp: "map_of (playerPositions ?s') playerID = Some \<lparr>current = 9, end_position = ?e\<rparr>"
    by (simp add: update_conv')
  have tick: "map_of (playerPositions (fire (nextHandle s) ?s')) playerID =
            Some \<lparr>current = 10, end_position = newPosition\<rparr>
          \<and> moved (fire (nextHandle s) ?s') = moved s @ [(playerID, 10, token_of s playerID)]"
    if "newPosition \<noteq> - 1" "newPosition \<noteq> 99"
  proof -
    have cp: "currentPlayer ?s' = Some playerID"
      by simp
    have pp': "map_of (playerPositions ?s') playerID = Some \<lparr>current = 9, end_position = newPosition\<rparr>"
      using pp that by simp
    have "animate ?s' = Inr (if (current \<lparr>current = 9, end_position = newPosition\<rparr> + 1) mod 40
          = end_position \<lparr>current = 9, end_position = newPosition\<rparr>
         then ?s'\<lparr>playerPositions := AList.update playerID (\<lparr>current = 9, end_position = newPosition\<rparr>\<lparr>current := (current \<lparr>current = 9, end_position = newPosition\<rparr> + 1) mod 40\<rparr>) (playerPositions ?s'),
                moved := moved ?s' @ [(playerID, (current \<lparr>current = 9, end_position = newPosition\<rparr> + 1) mod 40, token_of ?s' playerID)],
                intervals := intervals ?s' - set_option (timer ?s'),
                currentPlayer := None\<rparr>
         else ?s'\<lparr>playerPositions := AList.update playerID (\<lparr>current = 9, end_position = newPosition\<rparr>\<lparr>current := (current \<lparr>current = 9, end_position = newPosition\<rparr> + 1) mod 40\<rparr>) (playerPositions ?s'),
                moved := moved ?s' @ [(playerID, (current \<lparr>current = 9, end_position = newPosition\<rparr> + 1) mod 40, token_of ?s' playerID)]\<rparr>)"
      using cp pp' by (rule animate_advance) (use that in simp_all)
    then show ?thesis
      by (simp add: fire_def update_conv' token_of_def)
  qed
  show ?thesis
    unfolding r using pp tick by (intro exI [of _ ?s']) simp
qed

theorem onPlayerMove_jail_departure_witness:
  "map_of (playerPositions scenario) 2 = Some \<lparr>current = 0, end_position = 0\<rparr>
   \<and> map_of (playerPositions (after (onPlayerMove leaving scenario))) 2 =
       Some \<lparr>current = 9, end_position = 12\<rparr>
   \<and> moved (after (onPlayerMove leaving scenario)) = moved scenario
   \<and> map_of (playerPositions (fire 1 (after (onPlayerMove leaving scenario)))) 2 =
       Some \<lparr>current = 10, end_position = 12\<rparr>
   \<and> moved (fire 1 (after (onPlayerMove leaving scenario))) =
       moved scenario @ [(2, 10, token_of scenario 2)]"
proof -
  have h: "map_of (playerPositions scenario) 2 = Some \<lparr>current = 0, end_position = 0\<rparr>"
    by code_simp
  have n: "nextHandle scenario = 1"
    by code_simp
  from onPlayerMove_jail_departure [OF h, of 12 False "[]"] h show ?thesis
    unfolding leaving_def n by auto
qed

text \<open>
  Claim C8. For a \<^verbatim>\<open>playerMove\<close> event whose first tuple names a player of the
  board, the handler calls \<^verbatim>\<open>enableBuyPropertyButton(gameID, playerID, newPosition)\<close>
  once if the player is the local user, the new position is a key of
  \<^verbatim>\<open>propertyOwners\<close> and its owner is null, and makes no call of
  \<^verbatim>\<open>generateUserDetails\<close> otherwise.
\<close>

theorem buy_button_iff:
  assumes "map_of (playerPositions s) playerID = Some pp"
  shows "userDetails (after (onPlayerMove ((playerID, newPosition, oldPosition, jailed) # others) s)) =
     userDetails s @
       (if Some playerID = user_id s \<and> newPosition \<in> fst ` set (propertyOwners s)
             \<and> map_of (propertyOwners s) newPosition = Some None
        then [EnableBuyPropertyButton (gameID s) playerID newPosition] else [])"
  using onPlayerMove_known [OF assms, of newPosition oldPosition jailed others] by simp

theorem buy_button_iff_witness:
  "map_of (playerPositions scenario) 1 = Some \<lparr>current = 0, end_position = 0\<rparr>
   \<and> userDetails (after (onPlayerMove [(1, 3, 0, False)] scenario)) =
       [GenerateUserDetails, EnableBuyPropertyButton (Some 7) 1 3]
   \<and> userDetails (after (onPlayerMove [(1, 5, 0, False)] scenario)) = [GenerateUserDetails]"
proof -
  have h: "map_of (playerPositions scenario) 1 = Some \<lparr>current = 0, end_position = 0\<rparr>"
    by code_simp
  have e: "user_id scenario = Some 1" "gameID scenario = Some 7"
    "propertyOwners scenario = [(1, None), (3, None), (6, None)]"
    "userDetails scenario = [GenerateUserDetails]"
    by code_simp+
  from buy_button_iff [OF h, of 3 0 False "[]"] buy_button_iff [OF h, of 5 0 False "[]"] h
  show ?thesis
    by (simp add: e)
qed

text \<open>
  Claim C9, as amended. Two \<^verbatim>\<open>playerMove\<close> payloads that differ only in their
  jailed flags make the handler throw or return alike and leave the same variables,
  timers, board rendering and purchase button, and the ticks that follow render alike
  too. The one difference is the call of \<^verbatim>\<open>logMoveEvent\<close>, to which the handler
  forwards the event as it came, with its flags.
\<close>

theorem jailed_flag_unread:
  assumes "unflagged ev1 = unflagged ev2"
  shows "isl (onPlayerMove ev1 s) = isl (onPlayerMove ev2 s)
     \<and> (after (onPlayerMove ev1 s))\<lparr>gameLog := g\<rparr> = (after (onPlayerMove ev2 s))\<lparr>gameLog := g\<rparr>
     \<and> gameLog (after (onPlayerMove ev1 s)) = gameLog s @ [LogMoveEvent ev1]
     \<and> gameLog (after (onPlayerMove ev2 s)) = gameLog s @ [LogMoveEvent ev2]
     \<and> (fires k h (after (onPlayerMove ev1 s)))\<lparr>gameLog := g\<rparr> =
         (fires k h (after (onPlayerMove ev2 s)))\<lparr>gameLog := g\<rparr>"
proof -
  note f = onPlayerMove_flag [OF assms, of s g]
  have "(fires k h (after (onPlayerMove ev1 s)))\<lparr>gameLog := g\<rparr> =
      fires k h ((after (onPlayerMove ev1 s))\<lparr>gameLog := g\<rparr>)"
    by (simp add: fires_gameLog)
  also have "\<dots> = fires k h ((after (onPlayerMove ev2 s))\<lparr>gameLog := g\<rparr>)"
    using f by simp
  also have "\<dots> = (fires k h (after (onPlayerMove ev2 s)))\<lparr>gameLog := g\<rparr>"
    by (simp add: fires_gameLog)
  finally show ?thesis
    using f by simp
qed

theorem jailed_flag_unread_witness:
  "unflagged [(1, 5, 0, False)] = unflagged [(1, 5, 0, True)]
   \<and> isl (onPlayerMove [(1, 5, 0, False)] scenario) = isl (onPlayerMove [(1, 5, 0, True)] scenario)
   \<and> (after (onPlayerMove [(1, 5, 0, False)] scenario))\<lparr>gameLog := []\<rparr> =
       (after (onPlayerMove [(1, 5, 0, True)] scenario))\<lparr>gameLog := []\<rparr>
   \<and> gameLog (after (onPlayerMove [(1, 5, 0, False)] scenario)) =
       gameLog scenario @ [LogMoveEvent [(1, 5, 0, False)]]
   \<and> gameLog (after (onPlayerMove [(1, 5, 0, True)] scenario)) =
       gameLog scenario @ [LogMoveEvent [(1, 5, 0, True)]]
   \<and> (fires 5 1 (after (onPlayerMove [(1, 5, 0, False)] scenario)))\<lparr>gameLog := []\<rparr> =
       (fires 5 1 (after (onPlayerMove [(1, 5, 0, True)] scenario)))\<lparr>gameLog := []\<rparr>"
proof -
  have h: "unflagged [(1, 5, 0, False)] = unflagged [(1, 5, 0, True)]"
    by (simp add: unflagged_def)
  from jailed_flag_unread [OF h, of scenario "[]" 5 1] h show ?thesis
    by blast
qed

text \<open>
  Claim C9 as stated fails: the handler's results for \<^verbatim>\<open>[[1,5,0,false]]\<close> and
  \<^verbatim>\<open>[[1,5,0,true]]\<close> differ, in the event handed to the game log.
\<close>

theorem jailed_flag_logged_counterexample:
  "unflagged [(1, 5, 0, False)] = unflagged [(1, 5, 0, True)]
   \<and> onPlayerMove [(1, 5, 0, False)] scenario \<noteq> onPlayerMove [(1, 5, 0, True)] scenario
   \<and> gameLog (after (onPlayerMove [(1, 5, 0, False)] scenario)) =
       [GenerateGameLog, LogMoveEvent [(1, 5, 0, False)]]
   \<and> gameLog (after (onPlayerMove [(1, 5, 0, True)] scenario)) =
       [GenerateGameLog, LogMoveEvent [(1, 5, 0, True)]]"
proof -
  have u: "unflagged [(1, 5, 0, False)] = unflagged [(1, 5, 0, True)]"
    by (simp add: unflagged_def)
  have f: "gameLog (after (onPlayerMove [(1, 5, 0, False)] scenario)) =
       [GenerateGameLog, LogMoveEvent [(1, 5, 0, False)]]"
    by code_simp
  have t: "gameLog (after (onPlayerMove [(1, 5, 0, True)] scenario)) =
       [GenerateGameLog, LogMoveEvent [(1, 5, 0, True)]]"
    by code_simp
  have "onPlayerMove [(1, 5, 0, False)] scenario \<noteq> onPlayerMove [(1, 5, 0, True)] scenario"
  proof
    assume "onPlayerMove [(1, 5, 0, False)] scenario = onPlayerMove [(1, 5, 0, True)] scenario"
    then have "gameLog (after (onPlayerMove [(1, 5, 0, False)] scenario)) =
        gameLog (after (onPlayerMove [(1, 5, 0, True)] scenario))"
      by simp
    then show False
      unfolding f t by simp
  qed
  with u f t show ?thesis
    by blast
qed

section \<open>After the animation\<close>

lemma run_handlers_invariant:
  assumes "P s" and "\<And>h s. P s \<Longrightarrow> P (after (invoke h ev s))"
  shows "P (run_handlers hs ev s)"
  using assms(1) by (induction hs arbitrary: s) (simp_all add: assms(2))

lemma deliver_invariant:
  assumes "P s" and "\<And>h s. P s \<Longrightarrow> P (after (invoke h ev s))"
  shows "P (deliver ev s)"
  unfolding deliver_def using assms by (rule run_handlers_invariant)

lemma onHouseEvent_loop_frame:
  "playerPositions (onHouseEvent_loop hs s) = playerPositions s
   \<and> currentPlayer (onHouseEvent_loop hs s) = currentPlayer s
   \<and> timer (onHouseEvent_loop hs s) = timer s
   \<and> intervals (onHouseEvent_loop hs s) = intervals s
   \<and> nextHandle (onHouseEvent_loop hs s) = nextHandle s"
  by (induction hs s rule: onHouseEvent_loop.induct) simp_all

lemma disableActiveGameListeners_frame:
  "playerPositions (disableActiveGameListeners s) = playerPositions s
   \<and> currentPlayer (disableActiveGameListeners s) = currentPlayer s
   \<and> timer (disableActiveGameListeners s) = timer s
   \<and> intervals (disableActiveGameListeners s) = intervals s
   \<and> nextHandle (disableActiveGameListeners s) = nextHandle s"
  by (simp add: disableActiveGameListeners_def removeEventListener_def)

lemmas quiet_handler_defs =
  onPlayerTurn_def onPlayerBalance_def onPlayerJailed_def onPropertyOwnerChanges_def
  onHouseEvent_def onGameEnd_def Let_def onHouseEvent_loop_frame
  disableActiveGameListeners_frame

lemma invoke_positions:
  assumes "no_new_move (Deliver ev)"
  shows "playerPositions (after (invoke h ev s)) = playerPositions s
     \<and> currentPlayer (after (invoke h ev s)) = currentPlayer s"
  using assms
  by (cases h; cases ev) (simp_all add: quiet_handler_defs split: list.splits option.splits)

lemma fire_idle:
  assumes "currentPlayer s = None"
  shows "fire h s = s"
  using assms by (simp add: fire_def animate_def)

lemma step_idle:
  assumes "currentPlayer s = None" and "no_new_move a"
  shows "playerPositions (step a s) = playerPositions s \<and> currentPlayer (step a s) = None"
proof (cases a)
  case (Deliver ev)
  have "playerPositions (deliver ev s) = playerPositions s \<and> currentPlayer (deliver ev s) = None"
  proof (rule deliver_invariant [where P = "\<lambda>t. playerPositions t = playerPositions s \<and> currentPlayer t = None"])
    show "playerPositions s = playerPositions s \<and> currentPlayer s = None"
      using assms by simp
  next
    fix h and t :: state
    assume "playerPositions t = playerPositions s \<and> currentPlayer t = None"
    then show "playerPositions (after (invoke h ev t)) = playerPositions s
        \<and> currentPlayer (after (invoke h ev t)) = None"
      using invoke_positions [of ev h t] assms(2) Deliver by simp
  qed
  with Deliver show ?thesis by simp
next
  case (Fire h)
  with assms show ?thesis by (simp add: fire_idle)
next
  case (Start playerList startEvent)
  with assms show ?thesis by simp
qed

lemma run_idle:
  assumes "currentPlayer s = None" and "list_all no_new_move acts"
  shows "playerPositions (run acts s) = playerPositions s \<and> currentPlayer (run acts s) = None"
  using assms
proof (induction acts arbitrary: s)
  case Nil
  then show ?case by simp
next
  case (Cons a acts)
  then have "playerPositions (step a s) = playerPositions s \<and> currentPlayer (step a s) = None"
    using step_idle [of s a] by simp
  moreover from this Cons have "playerPositions (run acts (step a s)) = playerPositions (step a s)
      \<and> currentPlayer (run acts (step a s)) = None"
    by simp
  ultimately show ?case by simp
qed

lemma animate_arrival:
  assumes "currentPlayer s = Some p" and "animate s = Inr s'"
    and "map_of (playerPositions s') p = Some pp" and "current pp = end_position pp"
  shows "currentPlayer s' = None \<and> intervals s' = intervals s - set_option (timer s)
     \<and> timer s' = timer s"
  using assms
  by (auto simp: animate_def Let_def clearInterval_eq update_conv' split: option.splits if_splits)

text \<open>
  Claim C6. The call of \<^verbatim>\<open>animate\<close> after which the animating player's position
  equals the target cancels the interval whose handle is in \<^verbatim>\<open>timer\<close> and clears
  \<^verbatim>\<open>currentPlayer\<close>; from then on no tick of any interval and no event other than
  a \<^verbatim>\<open>playerMove\<close> changes \<^verbatim>\<open>playerPositions\<close>, and \<^verbatim>\<open>currentPlayer\<close>
  stays cleared.
\<close>

theorem animate_stops_at_target:
  assumes "currentPlayer s = Some p" and "animate s = Inr s'"
    and "map_of (playerPositions s') p = Some pp" and "current pp = end_position pp"
    and "list_all no_new_move acts"
  shows "currentPlayer s' = None
     \<and> intervals s' = intervals s - set_option (timer s)
     \<and> playerPositions (run acts s') = playerPositions s'
     \<and> currentPlayer (run acts s') = None"
proof -
  have a: "currentPlayer s' = None \<and> intervals s' = intervals s - set_option (timer s)
     \<and> timer s' = timer s"
    using assms(1-4) by (rule animate_arrival)
  then have "currentPlayer s' = None" by simp
  then have "playerPositions (run acts s') = playerPositions s' \<and> currentPlayer (run acts s') = None"
    using assms(5) by (rule run_idle)
  with a show ?thesis by simp
qed

theorem animate_stops_at_target_witness:
  "currentPlayer (fires 4 1 moving) = Some 1
   \<and> animate (fires 4 1 moving) = Inr (fires 5 1 moving)
   \<and> map_of (playerPositions (fires 5 1 moving)) 1 = Some \<lparr>current = 5, end_position = 5\<rparr>
   \<and> list_all no_new_move idle_actions
   \<and> currentPlayer (fires 5 1 moving) = None
   \<and> intervals (fires 5 1 moving) =
       intervals (fires 4 1 moving) - set_option (timer (fires 4 1 moving))
   \<and> playerPositions (run idle_actions (fires 5 1 moving)) = playerPositions (fires 5 1 moving)
   \<and> currentPlayer (run idle_actions (fires 5 1 moving)) = None"
proof -
  have h1: "currentPlayer (fires 4 1 moving) = Some 1"
    by code_simp
  have h2: "animate (fires 4 1 moving) = Inr (fires 5 1 moving)"
    by code_simp
  have h3: "map_of (playerPositions (fires 5 1 moving)) 1 = Some \<lparr>current = 5, end_position = 5\<rparr>"
    by code_simp
  have h4: "current \<lparr>current = 5, end_position = 5\<rparr> = end_position \<lparr>current = 5, end_position = 5\<rparr>"
    by simp
  have h5: "list_all no_new_move idle_actions"
    by (simp add: idle_actions_def)
  from animate_stops_at_target [OF h1 h2 h3 h4 h5] h1 h2 h3 h5 show ?thesis
    by blast
qed

section \<open>Overlapping animations\<close>

lemma run_invariant:
  assumes "P s" and "\<And>a s. P s \<Longrightarrow> P (step a s)"
  shows "P (run acts s)"
  using assms(1) by (induction acts arbitrary: s) (simp_all add: assms(2))

lemma onPlayerMove_timers:
  "(timer (after (onPlayerMove d s)) = timer s
      \<and> intervals (after (onPlayerMove d s)) = intervals s
      \<and> nextHandle (after (onPlayerMove d s)) = nextHandle s)
   \<or> (timer (after (onPlayerMove d s)) = Some (nextHandle s)
      \<and> intervals (after (onPlayerMove d s)) = insert (nextHandle s) (intervals s)
      \<and> nextHandle (after (onPlayerMove d s)) = Suc (nextHandle s))"
proof (cases d)
  case Nil
  then show ?thesis by (simp add: onPlayerMove_def)
next
  case (Cons x xs)
  obtain p n ol j where x: "x = (p, n, ol, j)"
    by (cases x) auto
  show ?thesis
  proof (cases "map_of (playerPositions s) p")
    case None
    then show ?thesis
      unfolding Cons x by (simp add: onPlayerMove_def)
  next
    case (Some pp)
    show ?thesis
      unfolding Cons x by (simp add: onPlayerMove_known [OF Some])
  qed
qed

lemma quiet_timers:
  assumes "g \<noteq> OnPlayerMove \<or> no_new_move (Deliver ev)"
  shows "timer (after (invoke g ev s)) = timer s
      \<and> intervals (after (invoke g ev s)) = intervals s
      \<and> nextHandle (after (invoke g ev s)) = nextHandle s"
  using assms
  by (cases g; cases ev) (simp_all add: quiet_handler_defs split: list.splits option.splits)

lemma invoke_timers:
  "(timer (after (invoke g ev s)) = timer s
      \<and> intervals (after (invoke g ev s)) = intervals s
      \<and> nextHandle (after (invoke g ev s)) = nextHandle s)
   \<or> (timer (after (invoke g ev s)) = Some (nextHandle s)
      \<and> intervals (after (invoke g ev s)) = insert (nextHandle s) (intervals s)
      \<and> nextHandle (after (invoke g ev s)) = Suc (nextHandle s))"
proof (cases "g \<noteq> OnPlayerMove \<or> no_new_move (Deliver ev)")
  case True
  then show ?thesis
    using quiet_timers [of g ev s] by simp
next
  case False
  then obtain d where "g = OnPlayerMove" "ev = PlayerMoveEvent d"
    by (cases ev) auto
  then show ?thesis
    using onPlayerMove_timers [of d s] by simp
qed

lemma animate_timers:
  "timer (after (animate s)) = timer s \<and> nextHandle (after (animate s)) = nextHandle s
   \<and> (intervals (after (animate s)) = intervals s
      \<or> intervals (after (animate s)) = intervals s - set_option (timer s))"
  by (simp add: animate_def Let_def clearInterval_eq split: option.splits)

lemma displayBoard_loop_timers:
  "timer (displayBoard_loop ps i s) = timer s
   \<and> intervals (displayBoard_loop ps i s) = intervals s
   \<and> nextHandle (displayBoard_loop ps i s) = nextHandle s"
  by (induction ps i s rule: displayBoard_loop.induct) simp_all

lemma addEventListener_timers:
  "timer (addEventListener n g s) = timer s
   \<and> intervals (addEventListener n g s) = intervals s
   \<and> nextHandle (addEventListener n g s) = nextHandle s"
  by (simp add: addEventListener_def)

lemma enableActiveGameListeners_timers:
  "timer (enableActiveGameListeners s) = timer s
   \<and> intervals (enableActiveGameListeners s) = intervals s
   \<and> nextHandle (enableActiveGameListeners s) = nextHandle s"
  unfolding enableActiveGameListeners_def by (simp only: addEventListener_timers)

lemma startSession_timers:
  "timer (startSession playerList startEvent s) = timer s
   \<and> intervals (startSession playerList startEvent s) = intervals s
   \<and> nextHandle (startSession playerList startEvent s) = nextHandle s"
  by (simp add: startSession_def activeGame_callback_def activeGame_def Let_def
      displayBoard_def displayBoard_loop_timers enableActiveGameListeners_timers)

lemma timer_is_latest_keep:
  assumes "timer_is_latest s" and "timer t = timer s" and "nextHandle t = nextHandle s"
    and "intervals t \<subseteq> intervals s"
  shows "timer_is_latest t"
proof -
  have a: "\<forall>h \<in> intervals t. 0 < h \<and> h < nextHandle t"
    using assms by (simp add: timer_is_latest_def subset_iff)
  have b: "case timer t of None \<Rightarrow> nextHandle t = 1 | Some m \<Rightarrow> nextHandle t = Suc m"
    using assms(1) unfolding assms(2,3) by (simp add: timer_is_latest_def)
  from a b show ?thesis
    unfolding timer_is_latest_def by (rule conjI [rotated])
qed

lemma timer_is_latest_arm:
  assumes "timer_is_latest s" and "timer t = Some (nextHandle s)"
    and "nextHandle t = Suc (nextHandle s)"
    and "intervals t = insert (nextHandle s) (intervals s)"
  shows "timer_is_latest t"
proof -
  have pos: "0 < nextHandle s"
    using assms(1) by (cases "timer s") (simp_all add: timer_is_latest_def)
  have "\<forall>h \<in> intervals s. 0 < h \<and> h < Suc (nextHandle s)"
    using assms(1) by (simp add: timer_is_latest_def less_Suc_eq)
  then have "\<forall>h \<in> intervals t. 0 < h \<and> h < nextHandle t"
    using pos assms(3,4) by simp
  then show ?thesis
    using assms(2,3) by (simp add: timer_is_latest_def)
qed

lemma stale_keep:
  assumes "stale h s" and "timer t = timer s" and "nextHandle t = nextHandle s"
    and "intervals t = intervals s \<or> intervals t = intervals s - set_option (timer s)"
  shows "stale h t"
proof -
  have "h \<noteq> nextHandle s - 1"
    using assms(1) unfolding stale_def by linarith
  then have "h \<in> intervals s - set_option (timer s)"
    using assms(1) by (simp add: stale_def)
  then have "h \<in> intervals t"
    using assms(4) by blast
  then show ?thesis
    using assms(1-3) by (simp add: stale_def)
qed

lemma stale_arm:
  assumes "stale h s" and "timer t = Some (nextHandle s)"
    and "nextHandle t = Suc (nextHandle s)"
    and "intervals t = insert (nextHandle s) (intervals s)"
  shows "stale h t"
  using assms by (simp add: stale_def)

lemma timer_is_latest_step:
  assumes "timer_is_latest s"
  shows "timer_is_latest (step a s)"
proof (cases a)
  case (Deliver ev)
  have "timer_is_latest (deliver ev s)"
    using assms
  proof (rule deliver_invariant)
    fix g and t :: state
    assume t: "timer_is_latest t"
    from invoke_timers [of g ev t] show "timer_is_latest (after (invoke g ev t))"
    proof
      assume "timer (after (invoke g ev t)) = timer t
        \<and> intervals (after (invoke g ev t)) = intervals t
        \<and> nextHandle (after (invoke g ev t)) = nextHandle t"
      then show ?thesis
        by (intro timer_is_latest_keep [OF t]) simp_all
    next
      assume "timer (after (invoke g ev t)) = Some (nextHandle t)
        \<and> intervals (after (invoke g ev t)) = insert (nextHandle t) (intervals t)
        \<and> nextHandle (after (invoke g ev t)) = Suc (nextHandle t)"
      then show ?thesis
        by (intro timer_is_latest_arm [OF t]) simp_all
    qed
  qed
  with Deliver show ?thesis by simp
next
  case (Fire k)
  have "timer_is_latest (after (animate s))"
    using animate_timers [of s] by (intro timer_is_latest_keep [OF assms]) auto
  then show ?thesis
    using assms unfolding Fire by (simp add: fire_def)
next
  case (Start playerList startEvent)
  have "timer_is_latest (startSession playerList startEvent s)"
    using startSession_timers [of playerList startEvent s]
    by (intro timer_is_latest_keep [OF assms]) simp_all
  then show ?thesis
    unfolding Start by simp
qed

lemma timer_is_latest_reachable: "timer_is_latest (run acts (initial uid))"
proof (rule run_invariant)
  show "timer_is_latest (initial uid)"
    by (simp add: timer_is_latest_def initial_def)
qed (rule timer_is_latest_step)

lemma stale_step:
  assumes "stale h s"
  shows "stale h (step a s)"
proof (cases a)
  case (Deliver ev)
  have "stale h (deliver ev s)"
    using assms
  proof (rule deliver_invariant)
    fix g and t :: state
    assume t: "stale h t"
    from invoke_timers [of g ev t] show "stale h (after (invoke g ev t))"
    proof
      assume "timer (after (invoke g ev t)) = timer t
        \<and> intervals (after (invoke g ev t)) = intervals t
        \<and> nextHandle (after (invoke g ev t)) = nextHandle t"
      then show ?thesis
        by (intro stale_keep [OF t]) simp_all
    next
      assume "timer (after (invoke g ev t)) = Some (nextHandle t)
        \<and> intervals (after (invoke g ev t)) = insert (nextHandle t) (intervals t)
        \<and> nextHandle (after (invoke g ev t)) = Suc (nextHandle t)"
      then show ?thesis
        by (intro stale_arm [OF t]) simp_all
    qed
  qed
  with Deliver show ?thesis by simp
next
  case (Fire k)
  have "stale h (after (animate s))"
    using animate_timers [of s] by (intro stale_keep [OF assms]) simp_all
  then show ?thesis
    using assms unfolding Fire by (simp add: fire_def)
next
  case (Start playerList startEvent)
  have "stale h (startSession playerList startEvent s)"
    using startSession_timers [of playerList startEvent s]
    by (intro stale_keep [OF assms]) simp_all
  then show ?thesis
    unfolding Start by simp
qed

lemma stale_run: "stale h s \<Longrightarrow> stale h (run acts s)"
  by (rule run_invariant) (simp_all add: stale_step)

lemma onPlayerMove_known_timers:
  assumes "map_of (playerPositions s) playerID = Some pp"
  shows "timer (after (onPlayerMove ((playerID, newPosition, oldPosition, jailed) # others) s)) =
      Some (nextHandle s)"
    and "intervals (after (onPlayerMove ((playerID, newPosition, oldPosition, jailed) # others) s)) =
      insert (nextHandle s) (intervals s)"
    and "nextHandle (after (onPlayerMove ((playerID, newPosition, oldPosition, jailed) # others) s)) =
      Suc (nextHandle s)"
    and "currentPlayer (after (onPlayerMove ((playerID, newPosition, oldPosition, jailed) # others) s)) =
      Some playerID"
  unfolding onPlayerMove_known [OF assms] by simp_all

text \<open>
  Claim C10. Let \<open>s\<close> be a state the page can reach, with an interval \<open>h\<close> armed, and
  let a \<^verbatim>\<open>playerMove\<close> event for a player of the board be handled in it. The handler
  stores a new handle in \<^verbatim>\<open>timer\<close>, which held the last one before, and the moving
  player in \<^verbatim>\<open>currentPlayer\<close>, and arms the new interval beside the old ones. In
  \<open>s\<close> and in every state \<open>t\<close> reached later, \<^verbatim>\<open>timer\<close> holds the handle armed
  last and \<^verbatim>\<open>animate\<close> cancels no other interval than that one; so \<open>h\<close> is still
  armed in every later state.
\<close>

theorem stale_interval_never_cancelled:
  assumes "s = run acts (initial uid)" and "h \<in> intervals s"
    and "map_of (playerPositions s) playerID = Some pp"
    and "s' = after (onPlayerMove ((playerID, newPosition, oldPosition, jailed) # others) s)"
    and "t = run later s'"
  shows "timer s = Some (nextHandle s - 1)
     \<and> intervals s - intervals (after (animate s)) \<subseteq> {nextHandle s - 1}
     \<and> timer s' = Some (nextHandle s)
     \<and> currentPlayer s' = Some playerID
     \<and> intervals s' = insert (nextHandle s) (intervals s)
     \<and> nextHandle s \<notin> intervals s
     \<and> timer t = Some (nextHandle t - 1)
     \<and> h < nextHandle t - 1
     \<and> intervals t - intervals (after (animate t)) \<subseteq> {nextHandle t - 1}
     \<and> h \<in> intervals t
     \<and> h \<in> intervals (after (animate t))"
proof -
  have inv: "timer_is_latest s"
    unfolding assms(1) by (rule timer_is_latest_reachable)
  note k = onPlayerMove_known_timers [OF assms(3), of newPosition oldPosition jailed others,
      folded assms(4)]
  have below: "0 < h \<and> h < nextHandle s"
    using inv assms(2) unfolding timer_is_latest_def by blast
  have old: "timer s = Some (nextHandle s - 1)"
  proof (cases "timer s")
    case None
    then have "nextHandle s = 1"
      using inv by (simp add: timer_is_latest_def)
    then show ?thesis
      using below by simp
  next
    case (Some m)
    then have "nextHandle s = Suc m"
      using inv by (simp add: timer_is_latest_def)
    then show ?thesis
      using Some by simp
  qed
  have fresh: "nextHandle s \<notin> intervals s"
    using inv unfolding timer_is_latest_def by blast
  have "stale h s'"
    unfolding stale_def k using below assms(2) by simp
  then have st: "stale h t"
    unfolding assms(5) by (rule stale_run)
  then have st': "stale h (after (animate t))"
    using animate_timers [of t] by (intro stale_keep [OF st]) simp_all
  have t1: "timer t = Some (nextHandle t - 1)" and t2: "h < nextHandle t - 1"
    and t3: "h \<in> intervals t"
    using st unfolding stale_def by simp_all linarith
  have t4: "h \<in> intervals (after (animate t))"
    using st' unfolding stale_def by simp
  have t5: "intervals t - intervals (after (animate t)) \<subseteq> {nextHandle t - 1}"
  proof -
    from animate_timers [of t]
    have "intervals (after (animate t)) = intervals t
        \<or> intervals (after (animate t)) = intervals t - set_option (timer t)"
      by simp
    then show ?thesis
    proof
      assume "intervals (after (animate t)) = intervals t"
      then show ?thesis by simp
    next
      assume "intervals (after (animate t)) = intervals t - set_option (timer t)"
      then show ?thesis unfolding t1 by auto
    qed
  qed
  have old': "intervals s - intervals (after (animate s)) \<subseteq> {nextHandle s - 1}"
  proof -
    from animate_timers [of s]
    have "intervals (after (animate s)) = intervals s
        \<or> intervals (after (animate s)) = intervals s - set_option (timer s)"
      by simp
    then show ?thesis
    proof
      assume "intervals (after (animate s)) = intervals s"
      then show ?thesis by simp
    next
      assume "intervals (after (animate s)) = intervals s - set_option (timer s)"
      then show ?thesis unfolding old by auto
    qed
  qed
  from old old' k(1,4,2) fresh t1 t2 t5 t3 t4 show ?thesis
    by (intro conjI)
qed

theorem stale_interval_never_cancelled_witness:
  "moving = run [Start [1, 2] (7, [1, 3, 6]), Deliver (PlayerMoveEvent [(1, 5, 0, False)])]
              (initial (Some 1))
   \<and> 1 \<in> intervals moving
   \<and> map_of (playerPositions moving) 2 = Some \<lparr>current = 0, end_position = 0\<rparr>
   \<and> timer moving = Some 1
   \<and> timer overlapping = Some 2
   \<and> currentPlayer overlapping = Some 2
   \<and> intervals overlapping = {1, 2}
   \<and> timer (run later_ticks overlapping) = Some 2
   \<and> intervals (run later_ticks overlapping) = {1}
   \<and> 1 \<in> intervals (after (animate (run later_ticks overlapping)))"
proof -
  have h1: "moving = run [Start [1, 2] (7, [1, 3, 6]), Deliver (PlayerMoveEvent [(1, 5, 0, False)])]
              (initial (Some 1))"
    by (simp add: moving_def scenario_def)
  have h2: "1 \<in> intervals moving"
    by code_simp
  have h3: "map_of (playerPositions moving) 2 = Some \<lparr>current = 0, end_position = 0\<rparr>"
    by code_simp
  have h4: "overlapping = after (onPlayerMove ((2, 8, 0, False) # []) moving)"
    by (simp add: overlapping_def)
  have h5: "run later_ticks overlapping = run later_ticks overlapping"
    by simp
  have e: "nextHandle moving = 2" "intervals moving = {1}"
    "intervals (run later_ticks overlapping) = {1}"
    by code_simp+
  have "nextHandle (run later_ticks overlapping) = 3"
    by code_simp
  then have e': "nextHandle (run later_ticks overlapping) - 1 = 2"
    by simp
  from stale_interval_never_cancelled [OF h1 h2 h3 h4 h5] h1 h2 h3 show ?thesis
    unfolding e e' by auto
qed

section \<open>The ownership map\<close>

lemma onPropertyOwnerChanges_keys:
  "fst ` set (propertyOwners (after (onPropertyOwnerChanges (c # cs) s))) =
     insert (prop_position (property c)) (fst ` set (propertyOwners s))"
  by (simp add: onPropertyOwnerChanges_def Let_def dom_update split: option.splits)

lemma onPlayerMove_propertyOwners:
  "propertyOwners (after (onPlayerMove d s)) = propertyOwners s"
proof (cases d)
  case Nil
  then show ?thesis by (simp add: onPlayerMove_def)
next
  case (Cons x xs)
  obtain p n ol j where x: "x = (p, n, ol, j)"
    by (cases x) auto
  show ?thesis
  proof (cases "map_of (playerPositions s) p")
    case None
    then show ?thesis
      unfolding Cons x by (simp add: onPlayerMove_def)
  next
    case (Some pp)
    show ?thesis
      unfolding Cons x by (simp add: onPlayerMove_known [OF Some])
  qed
qed

lemma onHouseEvent_loop_propertyOwners:
  "propertyOwners (onHouseEvent_loop hs s) = propertyOwners s"
  by (induction hs s rule: onHouseEvent_loop.induct) simp_all

lemma disableActiveGameListeners_propertyOwners:
  "propertyOwners (disableActiveGameListeners s) = propertyOwners s"
  by (simp add: disableActiveGameListeners_def removeEventListener_def)

lemma invoke_keys:
  assumes "names_tracked ks (Deliver ev)" and "set ks = fst ` set (propertyOwners s)"
  shows "fst ` set (propertyOwners (after (invoke g ev s))) = fst ` set (propertyOwners s)"
proof (cases ev)
  case (PropertyOwnerChangesEvent d)
  show ?thesis
  proof (cases d)
    case Nil
    then show ?thesis
      unfolding PropertyOwnerChangesEvent
      by (cases g) (simp_all add: onPropertyOwnerChanges_def)
  next
    case (Cons c cs)
    then have "prop_position (property c) \<in> fst ` set (propertyOwners s)"
      using assms PropertyOwnerChangesEvent by simp
    then have "insert (prop_position (property c)) (fst ` set (propertyOwners s)) =
        fst ` set (propertyOwners s)"
      by (rule insert_absorb)
    then show ?thesis
      unfolding PropertyOwnerChangesEvent Cons
      by (cases g) (simp_all add: onPropertyOwnerChanges_keys)
  qed
next
  case (PlayerMoveEvent d)
  then show ?thesis
    by (cases g) (simp_all add: onPlayerMove_propertyOwners)
next
  case (HouseEventEvent d)
  then show ?thesis
    by (cases g) (simp_all add: onHouseEvent_def Let_def onHouseEvent_loop_propertyOwners)
next
  case (GameEndEvent d)
  then show ?thesis
    by (cases g) (simp_all add: onGameEnd_def Let_def disableActiveGameListeners_propertyOwners)
qed (cases g; simp add: onPlayerTurn_def onPlayerBalance_def onPlayerJailed_def)+

lemma animate_propertyOwners: "propertyOwners (after (animate s)) = propertyOwners s"
  by (simp add: animate_def Let_def clearInterval_eq split: option.splits)

lemma step_keys:
  assumes "names_tracked ks a" and "set ks = fst ` set (propertyOwners s)"
  shows "fst ` set (propertyOwners (step a s)) = fst ` set (propertyOwners s)"
proof (cases a)
  case (Deliver ev)
  have "fst ` set (propertyOwners (deliver ev s)) = fst ` set (propertyOwners s)"
  proof (rule deliver_invariant
      [where P = "\<lambda>t. fst ` set (propertyOwners t) = fst ` set (propertyOwners s)"])
    fix g and t :: state
    assume t: "fst ` set (propertyOwners t) = fst ` set (propertyOwners s)"
    then have "set ks = fst ` set (propertyOwners t)"
      using assms(2) by simp
    with assms(1) have "fst ` set (propertyOwners (after (invoke g ev t))) =
        fst ` set (propertyOwners t)"
      unfolding Deliver by (rule invoke_keys)
    with t show "fst ` set (propertyOwners (after (invoke g ev t))) = fst ` set (propertyOwners s)"
      by simp
  qed simp
  with Deliver show ?thesis by simp
next
  case (Fire k)
  then show ?thesis
    by (simp add: fire_def animate_propertyOwners)
next
  case (Start playerList startEvent)
  with assms show ?thesis by simp
qed

lemma run_keys:
  assumes "list_all (names_tracked ks) acts" and "set ks = fst ` set (propertyOwners s)"
  shows "fst ` set (propertyOwners (run acts s)) = fst ` set (propertyOwners s)"
  using assms
proof (induction acts arbitrary: s)
  case Nil
  then show ?case by simp
next
  case (Cons a acts)
  then have a: "fst ` set (propertyOwners (step a s)) = fst ` set (propertyOwners s)"
    using step_keys [of ks a s] by simp
  then have "set ks = fst ` set (propertyOwners (step a s))"
    using Cons.prems by simp
  then have "fst ` set (propertyOwners (run acts (step a s))) = fst ` set (propertyOwners (step a s))"
    using Cons by simp
  with a show ?case by simp
qed

text \<open>
  Claim C2, as amended. The keys of \<^verbatim>\<open>propertyOwners\<close> stay what they are through
  every run of ticks and events of a session in which every change of every
  \<^verbatim>\<open>propertyOwnerChanges\<close> event names a key. The handler has no test for the key,
  though: after an event with one change the keys are the keys before it and that
  change's position, which the handler maps to the change's new owner, so a change for
  a position that is no key adds the position.
\<close>

theorem propertyOwners_keys:
  assumes "list_all (names_tracked (map fst (propertyOwners s))) acts"
  shows "fst ` set (propertyOwners (run acts s)) = fst ` set (propertyOwners s)
     \<and> fst ` set (propertyOwners (after (onPropertyOwnerChanges [c] s))) =
         insert (prop_position (property c)) (fst ` set (propertyOwners s))
     \<and> map_of (propertyOwners (after (onPropertyOwnerChanges [c] s)))
         (prop_position (property c)) = Some (newOwner c)"
proof -
  have "fst ` set (propertyOwners (run acts s)) = fst ` set (propertyOwners s)"
    using assms by (rule run_keys) simp
  moreover have "map_of (propertyOwners (after (onPropertyOwnerChanges [c] s)))
         (prop_position (property c)) = Some (newOwner c)"
    by (simp add: onPropertyOwnerChanges_def Let_def update_conv' split: option.splits)
  ultimately show ?thesis
    by (simp add: onPropertyOwnerChanges_keys)
qed

theorem propertyOwners_keys_witness:
  "list_all (names_tracked (map fst (propertyOwners scenario))) idle_actions
   \<and> fst ` set (propertyOwners (run idle_actions scenario)) = {1, 3, 6}
   \<and> fst ` set (propertyOwners (after (onPropertyOwnerChanges tracked_change scenario))) = {1, 3, 6}
   \<and> map_of (propertyOwners (after (onPropertyOwnerChanges tracked_change scenario))) 3 =
       Some (Some alice)"
proof -
  have e: "propertyOwners scenario = [(1, None), (3, None), (6, None)]"
    by code_simp
  have h: "list_all (names_tracked (map fst (propertyOwners scenario))) idle_actions"
    unfolding e by (simp add: idle_actions_def tracked_change_def)
  have c: "tracked_change =
      \<lparr>property = \<lparr>prop_position = 3, prop_name = ''Whitechapel Road''\<rparr>,
        oldOwner = None, newOwner = Some alice\<rparr> # []"
    by (simp add: tracked_change_def)
  from propertyOwners_keys [OF h, of "\<lparr>property = \<lparr>prop_position = 3, prop_name = ''Whitechapel Road''\<rparr>,
        oldOwner = None, newOwner = Some alice\<rparr>", folded c] h
  show ?thesis
    unfolding e by auto
qed

text \<open>
  Claim C2 as stated fails: in the example session the keys are 1, 3 and 6, and an
  ownership change for position 5 adds the key 5, with the new owner.
\<close>

theorem untracked_position_counterexample:
  "map fst (propertyOwners scenario) = [1, 3, 6]
   \<and> map fst (propertyOwners (deliver (PropertyOwnerChangesEvent untracked_change) scenario)) =
       [1, 3, 6, 5]
   \<and> map_of (propertyOwners (deliver (PropertyOwnerChangesEvent untracked_change) scenario)) 5 =
       Some (Some alice)"
  by code_simp

text \<open>
  Claim C4 fails on the code: of an event with two changes, for positions 1 and 3,
  the handler writes only the first to \<^verbatim>\<open>propertyOwners\<close>, while it hands both to
  the view.
\<close>

theorem second_change_not_applied:
  "propertyOwners (deliver (PropertyOwnerChangesEvent two_changes) scenario) =
     [(1, Some alice), (3, None), (6, None)]
   \<and> propertyView (deliver (PropertyOwnerChangesEvent two_changes) scenario) =
       Some [[(''Old Kent Road'', None, Some ''Alice''),
              (''Whitechapel Road'', None, Some ''Alice'')]]"
  by code_simp

section \<open>The end of the game\<close>

text \<open>
  Claim C3 fails on the code: \<^verbatim>\<open>disableActiveGameListeners\<close> removes six of the seven
  listeners that \<^verbatim>\<open>enableActiveGameListeners\<close> added. After the \<^verbatim>\<open>gameEnd\<close> event
  the \<^verbatim>\<open>playerJailed\<close> listener is still registered, and a \<^verbatim>\<open>playerJailed\<close> event
  still runs \<^verbatim>\<open>onPlayerJailed\<close>.
\<close>

theorem playerJailed_listener_survives:
  "listeners scenario =
     [(playerMove, OnPlayerMove), (playerTurn, OnPlayerTurn), (playerBalance, OnPlayerBalance),
      (playerJailed, OnPlayerJailed), (propertyOwnerChanges, OnPropertyOwnerChanges),
      (houseEvent, OnHouseEvent), (gameEnd, OnGameEnd)]
   \<and> listeners ended = [(playerJailed, OnPlayerJailed)]
   \<and> userDetails (deliver (PlayerJailedEvent ''jailed'') ended) =
       userDetails ended @ [JailedPlayer ''jailed'']
   \<and> gameLog (deliver (PlayerJailedEvent ''jailed'') ended) =
       gameLog ended @ [LogJailEvent ''jailed'']"
  by code_simp

end
